theory Spec2Isabelle
  imports Main "HOL-Library.Sublist" "HOL-Library.AList"
begin

section \<open>Python values and strings\<close>

text \<open>
  The chatbot of \<^verbatim>\<open>auc_archive_chatbot.py\<close> works on text and on decoded JSON.
  A Python \<^verbatim>\<open>str\<close> is modelled as a \<^typ>\<open>string\<close>: a list of bytes, the UTF-8
  encoding of the text. The character tests and the case mapping below are Python's on
  ASCII text; Python's Unicode tables for the characters beyond ASCII (other white space,
  other letters and their case mapping) are not part of the model, which leaves every
  byte from 128 on unchanged and treats it as neither white space nor a word character.
  A decoded JSON document is a value of \<open>json\<close>. A dictionary is the list of its
  items in their order, with distinct keys. A number with a fraction or an exponent is
  decoded to a float: \<open>Finite m e\<close> is the float of value \<open>m * 2 ^ e\<close>, and the
  decoder also gives the two infinities and the value that is no number. \<open>JFloat x t\<close>
  is the float \<open>x\<close> together with \<open>t\<close>, the text that \<^verbatim>\<open>str\<close> gives for it;
  how Python chooses the digits of that text is not part of the model.
\<close>

datatype py_float = Finite int int | PosInf | NegInf | NaN

datatype json =
    JNull
  | JBool bool
  | JInt int
  | JFloat py_float string
  | JStr string
  | JList "json list"
  | JObj "(string \<times> json) list"

text \<open>The exceptions the chatbot's own code can raise on a value of the wrong type.\<close>

datatype py_error = AttributeError | TypeError | KeyError

subsection \<open>Characters\<close>

text \<open>\<^verbatim>\<open>str.isspace\<close> and the class \<^verbatim>\<open>\s\<close> on ASCII: codes 9 to 13, 28 to 31 and 32.\<close>

definition is_space :: "char \<Rightarrow> bool" where
  "is_space c = (let n = (of_char c :: nat) in (9 \<le> n \<and> n \<le> 13) \<or> (28 \<le> n \<and> n \<le> 32))"

definition is_upper :: "char \<Rightarrow> bool" where
  "is_upper c = (let n = (of_char c :: nat) in 65 \<le> n \<and> n \<le> 90)"

definition lower_char :: "char \<Rightarrow> char" where
  "lower_char c = (if is_upper c then char_of ((of_char c :: nat) + 32) else c)"

text \<open>The class \<^verbatim>\<open>\w\<close> on ASCII: letters, digits and the underscore.\<close>

definition is_word :: "char \<Rightarrow> bool" where
  "is_word c = (let n = (of_char c :: nat) in
     (48 \<le> n \<and> n \<le> 57) \<or> (65 \<le> n \<and> n \<le> 90) \<or> n = 95 \<or> (97 \<le> n \<and> n \<le> 122))"

definition newline :: char where
  "newline = CHR 0x0A"

subsection \<open>String methods\<close>

definition lower :: "string \<Rightarrow> string" where
  "lower s = map lower_char s"

definition strip :: "string \<Rightarrow> string" where
  "strip s = rev (dropWhile is_space (rev (dropWhile is_space s)))"

text \<open>\<^verbatim>\<open>s.lstrip('/')\<close>\<close>

definition lstrip_slash :: "string \<Rightarrow> string" where
  "lstrip_slash s = dropWhile (\<lambda>c. c = CHR ''/'') s"

text \<open>\<^verbatim>\<open>sep.join(xs)\<close> on a list of strings.\<close>

fun join :: "string \<Rightarrow> string list \<Rightarrow> string" where
  "join sep [] = []"
| "join sep [x] = x"
| "join sep (x # y # ys) = x @ sep @ join sep (y # ys)"

text \<open>\<^verbatim>\<open>a in b\<close> on two strings is \<^term>\<open>sublist a b\<close>; \<^verbatim>\<open>b.startswith(a)\<close> is
  \<^term>\<open>prefix a b\<close>.\<close>

subsection \<open>Conversion to text\<close>

text \<open>\<^verbatim>\<open>str(n)\<close> for an integer.\<close>

definition digit_char :: "nat \<Rightarrow> char" where
  "digit_char d = char_of (48 + d)"

fun show_nat :: "nat \<Rightarrow> string" where
  "show_nat n = (if n < 10 then [digit_char n] else show_nat (n div 10) @ [digit_char (n mod 10)])"

declare show_nat.simps [simp del]

definition show_int :: "int \<Rightarrow> string" where
  "show_int i = (if i < 0 then CHR ''-'' # show_nat (nat (- i)) else show_nat (nat i))"

text \<open>\<^verbatim>\<open>repr(s)\<close> for a string: the quote is the apostrophe unless the string has an
  apostrophe and no double quote; the quote and the backslash are escaped, tab, newline
  and return are written with their letters, other control characters in hexadecimal.\<close>

definition hex_char :: "nat \<Rightarrow> char" where
  "hex_char d = (if d < 10 then char_of (48 + d) else char_of (87 + d))"

definition repr_char :: "char \<Rightarrow> char \<Rightarrow> string" where
  "repr_char q c = (let n = (of_char c :: nat) in
     if c = q \<or> c = CHR 0x5C then [CHR 0x5C, c]
     else if n = 9 then [CHR 0x5C, CHR ''t'']
     else if n = 10 then [CHR 0x5C, CHR ''n'']
     else if n = 13 then [CHR 0x5C, CHR ''r'']
     else if n < 32 \<or> n = 127 then [CHR 0x5C, CHR ''x'', hex_char (n div 16), hex_char (n mod 16)]
     else [c])"

definition repr_str :: "string \<Rightarrow> string" where
  "repr_str s = (let q = (if CHR 0x27 \<in> set s \<and> CHR 0x22 \<notin> set s then CHR 0x22 else CHR 0x27)
     in [q] @ concat (map (repr_char q) s) @ [q])"

text \<open>\<^verbatim>\<open>repr(v)\<close> for a decoded JSON value.\<close>

fun py_repr :: "json \<Rightarrow> string" where
  "py_repr JNull = ''None''"
| "py_repr (JBool b) = (if b then ''True'' else ''False'')"
| "py_repr (JInt i) = show_int i"
| "py_repr (JFloat x t) = t"
| "py_repr (JStr s) = repr_str s"
| "py_repr (JList xs) = ''['' @ join '', '' (map py_repr xs) @ '']''"
| "py_repr (JObj d) = ''{'' @ join '', '' (map (\<lambda>(k, v). repr_str k @ '': '' @ py_repr v) d) @ ''}''"

text \<open>\<^verbatim>\<open>str(v)\<close>, which is what an f-string writes for \<^verbatim>\<open>{v}\<close>.\<close>

definition py_str :: "json \<Rightarrow> string" where
  "py_str v = (case v of JStr s \<Rightarrow> s | _ \<Rightarrow> py_repr v)"

subsection \<open>Operations on values\<close>

text \<open>A float is zero, and a float is greater than an integer.\<close>

fun float_is_zero :: "py_float \<Rightarrow> bool" where
  "float_is_zero (Finite m e) = (m = 0)"
| "float_is_zero _ = False"

fun float_gt :: "py_float \<Rightarrow> int \<Rightarrow> bool" where
  "float_gt (Finite m e) n =
     (if 0 \<le> e then m * 2 ^ nat e > n else m > n * 2 ^ nat (- e))"
| "float_gt PosInf n = True"
| "float_gt NegInf n = False"
| "float_gt NaN n = False"

text \<open>Truth value of a value in a condition.\<close>

fun truthy :: "json \<Rightarrow> bool" where
  "truthy JNull = False"
| "truthy (JBool b) = b"
| "truthy (JInt i) = (i \<noteq> 0)"
| "truthy (JFloat x t) = (\<not> float_is_zero x)"
| "truthy (JStr s) = (s \<noteq> [])"
| "truthy (JList xs) = (xs \<noteq> [])"
| "truthy (JObj d) = (d \<noteq> [])"

text \<open>\<^verbatim>\<open>d.get(k, default)\<close> on a dictionary, and on any value: only a dictionary has
  the method.\<close>

definition dict_get :: "(string \<times> json) list \<Rightarrow> string \<Rightarrow> json \<Rightarrow> json" where
  "dict_get d k dflt = (case map_of d k of Some v \<Rightarrow> v | None \<Rightarrow> dflt)"

fun py_get :: "json \<Rightarrow> string \<Rightarrow> json \<Rightarrow> py_error + json" where
  "py_get (JObj d) k dflt = Inr (dict_get d k dflt)"
| "py_get _ k dflt = Inl AttributeError"

text \<open>\<^verbatim>\<open>k in v\<close> for a string \<open>k\<close>: a key of a dictionary, an element of a list, a
  substring of a string; a \<^verbatim>\<open>TypeError\<close> on the values that are no containers.\<close>

fun py_in :: "string \<Rightarrow> json \<Rightarrow> py_error + bool" where
  "py_in k (JObj d) = Inr (k \<in> set (map fst d))"
| "py_in k (JList xs) = Inr (JStr k \<in> set xs)"
| "py_in k (JStr s) = Inr (sublist k s)"
| "py_in k _ = Inl TypeError"

text \<open>\<^verbatim>\<open>v[k]\<close> for a string \<open>k\<close>: the value of a dictionary at a key it has;
  lists and strings take no string index.\<close>

fun py_item :: "json \<Rightarrow> string \<Rightarrow> py_error + json" where
  "py_item (JObj d) k = (case map_of d k of Some v \<Rightarrow> Inr v | None \<Rightarrow> Inl KeyError)"
| "py_item _ k = Inl TypeError"

text \<open>The elements a \<^verbatim>\<open>for\<close> loop visits: those of a list, the characters of a
  string, the keys of a dictionary.\<close>

fun py_iter :: "json \<Rightarrow> py_error + json list" where
  "py_iter (JList xs) = Inr xs"
| "py_iter (JStr s) = Inr (map (\<lambda>c. JStr [c]) s)"
| "py_iter (JObj d) = Inr (map (\<lambda>(k, v). JStr k) d)"
| "py_iter _ = Inl TypeError"

text \<open>\<^verbatim>\<open>len(v)\<close>\<close>

fun py_len :: "json \<Rightarrow> py_error + nat" where
  "py_len (JList xs) = Inr (length xs)"
| "py_len (JStr s) = Inr (length s)"
| "py_len (JObj d) = Inr (length d)"
| "py_len _ = Inl TypeError"

text \<open>The elements of \<^verbatim>\<open>v[:n]\<close> in the order a \<^verbatim>\<open>for\<close> loop visits them: a list
  or a string can be sliced, the characters of a string are strings of length one; a
  dictionary takes no slice (the exception is a \<^verbatim>\<open>TypeError\<close> up to Python 3.11).\<close>

fun py_slice :: "nat \<Rightarrow> json \<Rightarrow> py_error + json list" where
  "py_slice n (JList xs) = Inr (take n xs)"
| "py_slice n (JStr s) = Inr (map (\<lambda>c. JStr [c]) (take n s))"
| "py_slice n _ = Inl TypeError"

text \<open>\<^verbatim>\<open>v.lstrip('/')\<close> and \<^verbatim>\<open>v.lower()\<close> on any value: only a string has the
  methods.\<close>

fun py_lstrip_slash :: "json \<Rightarrow> py_error + string" where
  "py_lstrip_slash (JStr s) = Inr (lstrip_slash s)"
| "py_lstrip_slash _ = Inl AttributeError"

fun py_lower :: "json \<Rightarrow> py_error + string" where
  "py_lower (JStr s) = Inr (lower s)"
| "py_lower _ = Inl AttributeError"

text \<open>\<^verbatim>\<open>v > n\<close> for an integer \<open>n\<close>: integers, booleans and floats compare,
  anything else raises.\<close>

fun py_gt :: "json \<Rightarrow> int \<Rightarrow> py_error + bool" where
  "py_gt (JInt i) n = Inr (i > n)"
| "py_gt (JBool b) n = Inr ((if b then 1 else 0) > n)"
| "py_gt (JFloat x t) n = Inr (float_gt x n)"
| "py_gt _ n = Inl TypeError"

subsection \<open>Exceptions\<close>

text \<open>A computation that may raise returns \<open>Inl\<close> of the exception or \<open>Inr\<close> of its
  value; \<open>and_then m f\<close> goes on with \<open>f\<close> on the value of \<open>m\<close> and passes an
  exception of \<open>m\<close> on, as a statement that raises ends the function it is in.\<close>

definition and_then :: "py_error + 'a \<Rightarrow> ('a \<Rightarrow> py_error + 'b) \<Rightarrow> py_error + 'b" where
  "and_then m f = (case m of Inl e \<Rightarrow> Inl e | Inr v \<Rightarrow> f v)"

section \<open>Fixed pieces of text\<close>

text \<open>The symbols of the messages, as their UTF-8 bytes.\<close>

definition sym_cross :: string where
  "sym_cross = [CHR 0xE2, CHR 0x9D, CHR 0x8C]"

definition sym_mailbox :: string where
  "sym_mailbox = [CHR 0xF0, CHR 0x9F, CHR 0x93, CHR 0xAD]"

definition sym_glass :: string where
  "sym_glass = [CHR 0xF0, CHR 0x9F, CHR 0x94, CHR 0x8D]"

definition sym_calendar :: string where
  "sym_calendar = [CHR 0xF0, CHR 0x9F, CHR 0x93, CHR 0x85]"

definition sym_link :: string where
  "sym_link = [CHR 0xF0, CHR 0x9F, CHR 0x94, CHR 0x97]"

definition sym_chart :: string where
  "sym_chart = [CHR 0xF0, CHR 0x9F, CHR 0x93, CHR 0x8A]"

definition sym_page :: string where
  "sym_page = [CHR 0xF0, CHR 0x9F, CHR 0x93, CHR 0x84]"

definition sym_books :: string where
  "sym_books = [CHR 0xF0, CHR 0x9F, CHR 0x93, CHR 0x9A]"

definition sym_bullet :: string where
  "sym_bullet = [CHR 0xE2, CHR 0x80, CHR 0xA2]"

definition sym_branch :: string where
  "sym_branch = [CHR 0xE2, CHR 0x94, CHR 0x94, CHR 0xE2, CHR 0x94, CHR 0x80]"

definition sym_robot :: string where
  "sym_robot = [CHR 0xF0, CHR 0x9F, CHR 0xA4, CHR 0x96]"

definition nl :: string where
  "nl = [newline]"

definition item_url :: "string \<Rightarrow> string \<Rightarrow> string" where
  "item_url clean_alias pointer =
     ''https://digitalcollections.aucegypt.edu/digital/collection/'' @ clean_alias @ ''/id/'' @ pointer"


section \<open>The client of the archive's web service\<close>

text \<open>
  \<^verbatim>\<open>AUCArchiveAPI._make_request\<close> builds a URL, fetches it and returns the decoded
  answer, or a dictionary with the key \<^verbatim>\<open>error\<close> when the transfer or the decoding
  fails. The remote service is a parameter of the model: a function \<open>http\<close> from the URL
  to that returned value. The parameters are joined before the request is made, which
  raises a \<^verbatim>\<open>TypeError\<close> when one of them is no string.
\<close>

type_synonym http = "string \<Rightarrow> json"

definition api_url :: string where
  "api_url = ''https://digitalcollections.aucegypt.edu/digital/bl/dmwebservices/index.php''"

fun strs_of :: "json list \<Rightarrow> py_error + string list" where
  "strs_of [] = Inr []"
| "strs_of (JStr s # vs) = (case strs_of vs of Inl e \<Rightarrow> Inl e | Inr ss \<Rightarrow> Inr (s # ss))"
| "strs_of (_ # vs) = Inl TypeError"

definition make_request :: "http \<Rightarrow> string \<Rightarrow> json list \<Rightarrow> py_error + json" where
  "make_request http function params =
     (case strs_of params of
        Inl e \<Rightarrow> Inl e
      | Inr ps \<Rightarrow>
          let param_string = join ''/'' ps;
              query = (if param_string \<noteq> [] then function @ ''/'' @ param_string @ ''/json''
                       else function @ ''/json'');
              url = api_url @ ''?q='' @ query
          in Inr (http url))"

definition get_collections :: "http \<Rightarrow> py_error + json" where
  "get_collections http = make_request http ''dmGetCollectionList'' []"

definition search_items :: "http \<Rightarrow> json \<Rightarrow> string \<Rightarrow> nat \<Rightarrow> py_error + json" where
  "search_items http collection_alias search_terms max_records =
     (let search_string = ''CISOSEARCHALL^'' @ search_terms @ ''^any^and'';
          field_string = join ''!'' [''title'', ''date'', ''subjec'', ''descri'']
      in make_request http ''dmQuery''
           [collection_alias, JStr search_string, JStr field_string, JStr ''nosort'',
            JStr (show_nat max_records), JStr ''1'', JStr ''0'', JStr ''0'', JStr ''0'',
            JStr ''0'', JStr ''0'', JStr ''0''])"

definition get_item_info :: "http \<Rightarrow> string \<Rightarrow> string \<Rightarrow> py_error + json" where
  "get_item_info http collection_alias item_id =
     make_request http ''dmGetItemInfo'' [JStr collection_alias, JStr item_id]"

definition api_browse_collection :: "http \<Rightarrow> string \<Rightarrow> nat \<Rightarrow> py_error + json" where
  "api_browse_collection http collection_alias max_records =
     (let field_string = join ''!'' [''title'', ''date'', ''subjec'']
      in make_request http ''dmQuery''
           [JStr collection_alias, JStr ''0'', JStr field_string, JStr ''nosort'',
            JStr (show_nat max_records), JStr ''1'', JStr ''0'', JStr ''0'', JStr ''0'',
            JStr ''0'', JStr ''0'', JStr ''0''])"

section \<open>The chatbot's state and its initialization\<close>

text \<open>
  \<^verbatim>\<open>self.collections\<close> is \<^verbatim>\<open>None\<close> until \<^verbatim>\<open>initialize\<close> stores the service's
  answer in it as it came. \<^verbatim>\<open>self.collection_lookup\<close> is a dictionary from strings to
  strings; its order is the order in which its keys were first stored, and storing at a
  key it has keeps the key's place: an association list under \<^const>\<open>AList.update\<close>.
\<close>

record chatbot =
  collections :: json
  collection_lookup :: "(string \<times> string) list"

definition new_chatbot :: chatbot where
  "new_chatbot = \<lparr> collections = JNull, collection_lookup = [] \<rparr>"

text \<open>The loop of \<^verbatim>\<open>initialize\<close> over the collections.\<close>

fun load_lookup :: "json list \<Rightarrow> (string \<times> string) list \<Rightarrow> py_error + (string \<times> string) list" where
  "load_lookup [] lk = Inr lk"
| "load_lookup (collection # rest) lk =
     and_then (py_get collection ''alias'' (JStr [])) (\<lambda>a.
     and_then (py_lstrip_slash a) (\<lambda>alias.
     and_then (py_get collection ''name'' (JStr [])) (\<lambda>name.
       if alias \<noteq> [] then
         and_then (py_lower name) (\<lambda>lname.
           load_lookup rest (AList.update lname alias (AList.update (lower alias) alias lk)))
       else load_lookup rest lk)))"

text \<open>\<^verbatim>\<open>initialize\<close> returns whether the collections were loaded, with the state it
  leaves. What it prints is not modelled, but the values it prints are evaluated: the
  message of an error answer, which is read with \<^verbatim>\<open>collections_data['error']\<close>, and
  the number of the collections.\<close>

definition initialize :: "http \<Rightarrow> chatbot \<Rightarrow> py_error + (bool \<times> chatbot)" where
  "initialize http st =
     and_then (get_collections http) (\<lambda>collections_data.
     and_then (py_in ''error'' collections_data) (\<lambda>failed.
       if failed then
         and_then (py_item collections_data ''error'') (\<lambda>msg. Inr (False, st))
       else
         and_then (py_iter collections_data) (\<lambda>cs.
         and_then (load_lookup cs (collection_lookup st)) (\<lambda>lk.
         and_then (py_len collections_data) (\<lambda>n.
           Inr (True, \<lparr> collections = collections_data, collection_lookup = lk \<rparr>))))))"

section \<open>Resolving a collection name\<close>

text \<open>The loop of \<^verbatim>\<open>find_collection_alias\<close> over the items of the lookup.\<close>

fun partial_match :: "string \<Rightarrow> (string \<times> string) list \<Rightarrow> string option" where
  "partial_match n [] = None"
| "partial_match n ((key, alias) # rest) =
     (if sublist n key \<or> sublist key n then Some alias else partial_match n rest)"

definition find_collection_alias :: "(string \<times> string) list \<Rightarrow> string \<Rightarrow> string option" where
  "find_collection_alias lookup collection_name =
     (let n = strip (lower collection_name) in
      case map_of lookup n of
        Some alias \<Rightarrow> Some alias
      | None \<Rightarrow> partial_match n lookup)"

section \<open>Formatting\<close>

subsection \<open>Search results\<close>

text \<open>The body of the loop of \<^verbatim>\<open>format_search_results\<close>: the lines one record adds
  to \<^verbatim>\<open>output\<close>.\<close>

definition record_entry :: "nat \<Rightarrow> json \<Rightarrow> py_error + string list" where
  "record_entry i record =
     and_then (py_get record ''title'' (JStr ''Untitled'')) (\<lambda>title.
     and_then (py_get record ''date'' (JStr ''Date unknown'')) (\<lambda>date.
     and_then (py_get record ''collection'' (JStr [])) (\<lambda>collection_alias.
     and_then (py_get record ''pointer'' (JStr [])) (\<lambda>pointer.
     and_then (py_lstrip_slash collection_alias) (\<lambda>clean_alias.
       Inr ([show_nat i @ ''. **'' @ py_str title @ ''**''] @
            (if truthy date \<and> date \<noteq> JStr ''Date unknown''
             then [''   '' @ sym_calendar @ '' '' @ py_str date] else []) @
            [''   '' @ sym_link @ '' '' @ item_url clean_alias (py_str pointer), []]))))))"

fun render_records :: "nat \<Rightarrow> json list \<Rightarrow> string list \<Rightarrow> py_error + string list" where
  "render_records i [] output = Inr output"
| "render_records i (record # rest) output =
     and_then (record_entry i record) (\<lambda>ls. render_records (Suc i) rest (output @ ls))"

definition results_header :: "json \<Rightarrow> string" where
  "results_header collection_name =
     (if truthy collection_name
      then sym_glass @ '' Search results from '' @ [CHR 0x27] @ py_str collection_name
             @ [CHR 0x27] @ '':'' @ nl
      else sym_glass @ '' Search results:'' @ nl)"

definition showing_line :: "nat \<Rightarrow> json \<Rightarrow> string" where
  "showing_line n total_found =
     sym_chart @ '' Showing '' @ show_nat n @ '' of '' @ py_str total_found @ '' total results''"

definition format_search_results :: "json \<Rightarrow> json \<Rightarrow> py_error + string" where
  "format_search_results results collection_name =
     and_then (py_in ''error'' results) (\<lambda>failed.
       if failed then
         and_then (py_item results ''error'') (\<lambda>msg.
           Inr (sym_cross @ '' Search error: '' @ py_str msg))
       else
         and_then (py_get results ''records'' JNull) (\<lambda>found.
           if \<not> truthy found then
             Inr (sym_mailbox @ '' No items found matching your search criteria.'')
           else
             and_then (py_item results ''records'') (\<lambda>all_records.
             and_then (py_slice 10 all_records) (\<lambda>records.
             and_then (render_records 1 records [results_header collection_name]) (\<lambda>output.
             and_then (py_get results ''pager'' (JObj [])) (\<lambda>pager.
             and_then (py_get pager ''total'' (JInt (int (length records)))) (\<lambda>total_found.
             and_then (py_gt total_found (int (length records))) (\<lambda>truncated.
               Inr (join nl
                 (if truncated then output @ [showing_line (length records) total_found]
                  else output))))))))))"

subsection \<open>Item details\<close>

text \<open>One optional line of \<^verbatim>\<open>format_item_details\<close>: written when the value is true
  in a condition.\<close>

definition detail_line :: "string \<Rightarrow> json \<Rightarrow> string list" where
  "detail_line label v = (if truthy v then [''**'' @ label @ '':** '' @ py_str v] else [])"

definition view_item_line :: "string \<Rightarrow> json \<Rightarrow> string list" where
  "view_item_line collection_alias pointer =
     (if truthy pointer
      then [nl @ sym_link @ '' **View Item:** ''
              @ item_url (lstrip_slash collection_alias) (py_str pointer)]
      else [])"

definition format_item_details :: "json \<Rightarrow> string \<Rightarrow> py_error + string" where
  "format_item_details item_data collection_alias =
     and_then (py_in ''error'' item_data) (\<lambda>failed.
       if failed then
         and_then (py_item item_data ''error'') (\<lambda>msg.
           Inr (sym_cross @ '' Error retrieving item: '' @ py_str msg))
       else
         and_then (py_get item_data ''title'' (JStr ''Untitled'')) (\<lambda>title.
         and_then (py_get item_data ''date'' (JStr [])) (\<lambda>date.
         and_then (py_get item_data ''creator'' (JStr [])) (\<lambda>creator_long.
         and_then (py_get item_data ''creato'' creator_long) (\<lambda>creator.
         and_then (py_get item_data ''subject'' (JStr [])) (\<lambda>subject_long.
         and_then (py_get item_data ''subjec'' subject_long) (\<lambda>subject.
         and_then (py_get item_data ''description'' (JStr [])) (\<lambda>description_long.
         and_then (py_get item_data ''descri'' description_long) (\<lambda>description.
         and_then (py_get item_data ''type'' (JStr [])) (\<lambda>type_field.
         and_then (py_get item_data ''format'' type_field) (\<lambda>format_field.
         and_then (py_get item_data ''rights'' (JStr [])) (\<lambda>rights.
         and_then (py_get item_data ''pointer'' (JStr [])) (\<lambda>pointer_long.
         and_then (py_get item_data ''dmrecord'' pointer_long) (\<lambda>pointer.
           Inr (join nl
             ([sym_page @ '' **Item Details:**'' @ nl,
               ''**Title:** '' @ py_str title] @
              detail_line ''Date'' date @
              detail_line ''Creator'' creator @
              detail_line ''Subject'' subject @
              detail_line ''Description'' description @
              detail_line ''Format'' format_field @
              detail_line ''Rights'' rights @
              view_item_line collection_alias pointer))))))))))))))))"

section \<open>The regular expressions of the query rules\<close>

text \<open>
  \<^verbatim>\<open>process_query\<close> uses three patterns with \<^verbatim>\<open>re.search\<close>. Each is a sequence
  of literal text and of repetitions \<^verbatim>\<open>c+\<close> of a character class, some of them groups,
  one of them lazy (\<^verbatim>\<open>(.+?)\<close>). The matcher below is the backtracking search of
  \<^verbatim>\<open>re\<close> on such sequences: a greedy repetition tries its longest run first and then
  the shorter ones, a lazy one its shortest first, and the first choice under which the
  rest of the pattern matches is taken; \<^verbatim>\<open>re.search\<close> tries the start positions from
  left to right. The result holds the text of the groups in their order.
\<close>

datatype char_class = Space | AnyChar | Word

fun in_class :: "char_class \<Rightarrow> char \<Rightarrow> bool" where
  "in_class Space c = is_space c"
| "in_class AnyChar c = (c \<noteq> newline)"
| "in_class Word c = is_word c"

datatype re_item = Lit string | Plus char_class | GroupPlus char_class | GroupLazy char_class

fun first_some :: "(nat \<Rightarrow> 'a option) \<Rightarrow> nat list \<Rightarrow> 'a option" where
  "first_some f [] = None"
| "first_some f (n # ns) = (case f n of Some r \<Rightarrow> Some r | None \<Rightarrow> first_some f ns)"

text \<open>The lengths a repetition of the class can take at the start of \<open>s\<close>, shortest
  first.\<close>

definition run_lengths :: "char_class \<Rightarrow> string \<Rightarrow> nat list" where
  "run_lengths c s = [1 ..< Suc (length (takeWhile (in_class c) s))]"

primrec match_here :: "re_item list \<Rightarrow> string \<Rightarrow> string list option" where
  "match_here [] s = Some []"
| "match_here (it # its) s =
     (case it of
        Lit l \<Rightarrow> (if prefix l s then match_here its (drop (length l) s) else None)
      | Plus c \<Rightarrow> first_some (\<lambda>n. match_here its (drop n s)) (rev (run_lengths c s))
      | GroupPlus c \<Rightarrow>
          first_some (\<lambda>n. map_option (\<lambda>gs. take n s # gs) (match_here its (drop n s)))
            (rev (run_lengths c s))
      | GroupLazy c \<Rightarrow>
          first_some (\<lambda>n. map_option (\<lambda>gs. take n s # gs) (match_here its (drop n s)))
            (run_lengths c s))"

definition re_search :: "re_item list \<Rightarrow> string \<Rightarrow> string list option" where
  "re_search pat s = first_some (\<lambda>i. match_here pat (drop i s)) [0 ..< Suc (length s)]"

text \<open>\<^verbatim>\<open>browse\s+(.+)\<close>\<close>

definition browse_re :: "re_item list" where
  "browse_re = [Lit ''browse'', Plus Space, GroupPlus AnyChar]"

text \<open>\<^verbatim>\<open>search\s+(.+?)\s+in\s+(.+)\<close>\<close>

definition search_in_re :: "re_item list" where
  "search_in_re =
     [Lit ''search'', Plus Space, GroupLazy AnyChar, Plus Space, Lit ''in'', Plus Space,
      GroupPlus AnyChar]"

text \<open>\<^verbatim>\<open>item\s+(\w+)\s+(\w+)\<close>\<close>

definition item_re :: "re_item list" where
  "item_re = [Lit ''item'', Plus Space, GroupPlus Word, Plus Space, GroupPlus Word]"

section \<open>The rules of a query\<close>

text \<open>
  \<^verbatim>\<open>process_query\<close> tries its rules in order and returns what the method of the first
  rule that applies returns. The model separates the two steps: \<open>resolve_intent\<close> is the
  rules, with each \<^verbatim>\<open>return self.method(arguments)\<close> recorded as a value of
  \<open>intent\<close>, and \<open>run_intent\<close> makes the call.
\<close>

datatype intent =
    Help
  | ListCollections
  | Browse string
  | SearchInCollection string string
  | SearchAll string
  | ItemDetail string string

text \<open>The loop over the first ten collections: the identifier of the first collection
  whose lowercased name is not empty and occurs in the input.\<close>

fun match_collection_name :: "json list \<Rightarrow> string \<Rightarrow> py_error + string option" where
  "match_collection_name [] user_input = Inr None"
| "match_collection_name (collection # rest) user_input =
     and_then (py_get collection ''name'' (JStr [])) (\<lambda>name.
     and_then (py_lower name) (\<lambda>collection_name.
       if collection_name \<noteq> [] \<and> sublist collection_name user_input then
         and_then (py_get collection ''alias'' (JStr [])) (\<lambda>a.
         and_then (py_lstrip_slash a) (\<lambda>alias. Inr (Some alias)))
       else match_collection_name rest user_input))"

definition resolve_intent :: "json \<Rightarrow> string \<Rightarrow> py_error + intent" where
  "resolve_intent colls raw_input =
     (let user_input = lower (strip raw_input) in
      if user_input \<in> set [''help'', ''?'', ''commands''] then Inr Help
      else if sublist ''collections'' user_input \<or> sublist ''list collections'' user_input
      then Inr ListCollections
      else
        (case re_search browse_re user_input of
           Some gs \<Rightarrow> Inr (Browse (strip (gs ! 0)))
         | None \<Rightarrow>
             and_then (py_slice 10 colls) (\<lambda>first_ten.
             and_then (match_collection_name first_ten user_input) (\<lambda>named.
               (case named of
                  Some alias \<Rightarrow> Inr (Browse alias)
                | None \<Rightarrow>
                    (case re_search search_in_re user_input of
                       Some gs \<Rightarrow> Inr (SearchInCollection (strip (gs ! 0)) (strip (gs ! 1)))
                     | None \<Rightarrow>
                         if prefix ''search '' user_input
                         then Inr (SearchAll (strip (drop 7 user_input)))
                         else
                           (case re_search item_re user_input of
                              Some gs \<Rightarrow> Inr (ItemDetail (gs ! 0) (gs ! 1))
                            | None \<Rightarrow> Inr (SearchAll user_input))))))))"

section \<open>The operations of the chatbot\<close>

subsection \<open>Help\<close>

definition get_help_message :: string where
  "get_help_message = join nl
     [sym_robot @ '' **AUC Archive Chatbot Help**'',
      [],
      ''**Commands:**'',
      sym_bullet @ '' `list collections` - Show all available collections'',
      sym_bullet @ '' `browse [collection]` - Browse items in a collection'',
      sym_bullet @ '' `search [terms]` - Search across all collections'',
      sym_bullet @ '' `search [terms] in [collection]` - Search within specific collection'',
      sym_bullet @ '' `item [collection] [id]` - Get details for specific item'',
      sym_bullet @ '' `help` - Show this help message'',
      [],
      ''**Examples:**'',
      sym_bullet @ '' `search Ottoman Empire`'',
      sym_bullet @ '' `browse manuscripts`'',
      sym_bullet @ '' `search architecture in photographs`'',
      sym_bullet @ '' `item manuscripts 1234`'',
      [],
      ''**Tips:**'',
      sym_bullet @ '' Use collection names or aliases (shown in parentheses)'',
      sym_bullet @ '' Search terms can be multiple words'',
      sym_bullet @ '' Results include direct links to view items online'']"

subsection \<open>Listing the collections\<close>

fun list_entries :: "json list \<Rightarrow> string list \<Rightarrow> py_error + string list" where
  "list_entries [] output = Inr output"
| "list_entries (collection # rest) output =
     and_then (py_get collection ''name'' (JStr ''Unknown'')) (\<lambda>name.
     and_then (py_get collection ''alias'' (JStr ''unknown'')) (\<lambda>a.
     and_then (py_lstrip_slash a) (\<lambda>alias.
     and_then (py_get collection ''secondary'' (JStr [])) (\<lambda>secondary.
       list_entries rest
         (output @ [sym_bullet @ '' **'' @ py_str name @ ''** (`'' @ alias @ ''`)''] @
          (if truthy secondary \<and> secondary \<noteq> JStr ''0''
           then [''  '' @ sym_branch @ '' Part of: '' @ py_str secondary] else []))))))"

definition list_collections :: "chatbot \<Rightarrow> py_error + string" where
  "list_collections st =
     (if \<not> truthy (collections st)
      then Inr (sym_cross @ '' Collections not loaded. Please restart the chatbot.'')
      else
        and_then (py_slice 20 (collections st)) (\<lambda>first_twenty.
        and_then (list_entries first_twenty [sym_books @ '' **Available Collections:**'' @ nl]) (\<lambda>output.
        and_then (py_len (collections st)) (\<lambda>n.
          Inr (join nl
            (if n > 20
             then output @ [nl @ sym_chart @ '' Showing 20 of '' @ show_nat n @ '' collections'']
             else output))))))"

subsection \<open>Browsing and searching one collection\<close>

definition not_found_message :: "string \<Rightarrow> string" where
  "not_found_message collection_name =
     sym_cross @ '' Collection '' @ [CHR 0x27] @ collection_name @ [CHR 0x27]
       @ '' not found. Use '' @ [CHR 0x27] @ ''list collections'' @ [CHR 0x27]
       @ '' to see available collections.''"

text \<open>\<^verbatim>\<open>next((c for c in self.collections if c.get('alias') == collection_alias), {})\<close>\<close>

fun find_collection_info :: "json list \<Rightarrow> string \<Rightarrow> py_error + json" where
  "find_collection_info [] collection_alias = Inr (JObj [])"
| "find_collection_info (c # rest) collection_alias =
     and_then (py_get c ''alias'' JNull) (\<lambda>a.
       if a = JStr collection_alias then Inr c
       else find_collection_info rest collection_alias)"

text \<open>What \<^verbatim>\<open>browse_collection\<close> and \<^verbatim>\<open>search_in_collection\<close> do with the
  answer of the service.\<close>

definition show_results :: "chatbot \<Rightarrow> json \<Rightarrow> string \<Rightarrow> string \<Rightarrow> py_error + string" where
  "show_results st results collection_alias collection_name =
     and_then (py_iter (collections st)) (\<lambda>cs.
     and_then (find_collection_info cs collection_alias) (\<lambda>collection_info.
     and_then (py_get collection_info ''name'' (JStr collection_name)) (\<lambda>collection_display_name.
       format_search_results results collection_display_name)))"

definition browse_collection :: "http \<Rightarrow> chatbot \<Rightarrow> string \<Rightarrow> py_error + string" where
  "browse_collection http st collection_name =
     (case find_collection_alias (collection_lookup st) collection_name of
        None \<Rightarrow> Inr (not_found_message collection_name)
      | Some collection_alias \<Rightarrow>
          if collection_alias = [] then Inr (not_found_message collection_name)
          else
            and_then (api_browse_collection http collection_alias 20) (\<lambda>results.
              show_results st results collection_alias collection_name))"

definition search_in_collection :: "http \<Rightarrow> chatbot \<Rightarrow> string \<Rightarrow> string \<Rightarrow> py_error + string" where
  "search_in_collection http st search_terms collection_name =
     (case find_collection_alias (collection_lookup st) collection_name of
        None \<Rightarrow> Inr (not_found_message collection_name)
      | Some collection_alias \<Rightarrow>
          if collection_alias = [] then Inr (not_found_message collection_name)
          else
            and_then (search_items http (JStr collection_alias) search_terms 20) (\<lambda>results.
              show_results st results collection_alias collection_name))"

subsection \<open>Searching all collections\<close>

text \<open>The first loop of \<^verbatim>\<open>search_all_collections\<close>, over the first five collections,
  with \<^verbatim>\<open>all_results\<close> and \<^verbatim>\<open>searched_collections\<close> as they grow.\<close>

fun search_loop ::
  "http \<Rightarrow> string \<Rightarrow> json list \<Rightarrow> json list \<Rightarrow> json list \<Rightarrow> py_error + (json list \<times> json list)" where
  "search_loop http search_terms [] all_results searched = Inr (all_results, searched)"
| "search_loop http search_terms (collection # rest) all_results searched =
     and_then (py_get collection ''alias'' (JStr [])) (\<lambda>alias.
     and_then (py_get collection ''name'' (JStr [])) (\<lambda>name.
       if truthy alias then
         and_then (search_items http alias search_terms 5) (\<lambda>results.
         and_then (py_get results ''records'' JNull) (\<lambda>found.
           if truthy found then
             and_then (py_item results ''records'') (\<lambda>recs.
             and_then (py_iter recs) (\<lambda>rs.
               search_loop http search_terms rest (all_results @ rs) (searched @ [name])))
           else search_loop http search_terms rest all_results searched))
       else search_loop http search_terms rest all_results searched))"

text \<open>The body of its second loop: the lines of one record.\<close>

definition combined_entry :: "nat \<Rightarrow> json \<Rightarrow> py_error + string list" where
  "combined_entry i record =
     and_then (py_get record ''title'' (JStr ''Untitled'')) (\<lambda>title.
     and_then (py_get record ''date'' (JStr [])) (\<lambda>date.
     and_then (py_get record ''collection'' (JStr [])) (\<lambda>collection_alias.
     and_then (py_get record ''pointer'' (JStr [])) (\<lambda>pointer.
     and_then (py_lstrip_slash collection_alias) (\<lambda>clean_alias.
       Inr ([show_nat i @ ''. **'' @ py_str title @ ''**''] @
            (if truthy date then [''   '' @ sym_calendar @ '' '' @ py_str date] else []) @
            [''   '' @ sym_books @ '' Collection: '' @ py_str collection_alias,
             ''   '' @ sym_link @ '' '' @ item_url clean_alias (py_str pointer),
             []]))))))"

fun render_combined :: "nat \<Rightarrow> json list \<Rightarrow> string list \<Rightarrow> py_error + string list" where
  "render_combined i [] output = Inr output"
| "render_combined i (record # rest) output =
     and_then (combined_entry i record) (\<lambda>ls. render_combined (Suc i) rest (output @ ls))"

definition no_results_message :: "string \<Rightarrow> string" where
  "no_results_message search_terms =
     sym_mailbox @ '' No items found for '' @ [CHR 0x27] @ search_terms @ [CHR 0x27]
       @ '' across searched collections.''"

definition combined_header :: "string \<Rightarrow> string" where
  "combined_header search_terms =
     sym_glass @ '' Search results for '' @ [CHR 0x27] @ search_terms @ [CHR 0x27]
       @ '' across collections:'' @ nl"

text \<open>The lines after the records: the names of the first three entries of
  \<^verbatim>\<open>searched_collections\<close>, and the number of the others when there are more.\<close>

definition searched_trailer :: "string list \<Rightarrow> nat \<Rightarrow> string list" where
  "searched_trailer first_names n =
     [sym_chart @ '' Searched in: '' @ join '', '' first_names] @
     (if n > 3 then ['' and '' @ show_nat (n - 3) @ '' more collections''] else [])"

definition search_all_collections :: "http \<Rightarrow> chatbot \<Rightarrow> string \<Rightarrow> py_error + string" where
  "search_all_collections http st search_terms =
     (if \<not> truthy (collections st)
      then Inr (sym_cross @ '' No collections available for search.'')
      else
        and_then (py_slice 5 (collections st)) (\<lambda>first_five.
        and_then (search_loop http search_terms first_five [] []) (\<lambda>(all_results, searched).
          if all_results = [] then Inr (no_results_message search_terms)
          else
            and_then (render_combined 1 (take 10 all_results) [combined_header search_terms]) (\<lambda>output.
            and_then (strs_of (take 3 searched)) (\<lambda>first_names.
              Inr (join nl (output @ searched_trailer first_names (length searched))))))))"

subsection \<open>Item details\<close>

definition get_item_details :: "http \<Rightarrow> string \<Rightarrow> string \<Rightarrow> py_error + string" where
  "get_item_details http collection_alias item_id =
     and_then (get_item_info http collection_alias item_id) (\<lambda>item_data.
       format_item_details item_data collection_alias)"

subsection \<open>Processing a query\<close>

fun run_intent :: "http \<Rightarrow> chatbot \<Rightarrow> intent \<Rightarrow> py_error + string" where
  "run_intent http st Help = Inr get_help_message"
| "run_intent http st ListCollections = list_collections st"
| "run_intent http st (Browse collection_name) = browse_collection http st collection_name"
| "run_intent http st (SearchInCollection search_terms collection_name) =
     search_in_collection http st search_terms collection_name"
| "run_intent http st (SearchAll search_terms) = search_all_collections http st search_terms"
| "run_intent http st (ItemDetail collection_alias item_id) =
     get_item_details http collection_alias item_id"

definition process_query :: "http \<Rightarrow> chatbot \<Rightarrow> string \<Rightarrow> py_error + string" where
  "process_query http st user_input =
     and_then (resolve_intent (collections st) user_input) (run_intent http st)"

section \<open>Specification-side notions\<close>

text \<open>A field that has a short key and a long key: the value at the short key when the
  payload has it, otherwise the value at the long key, if any.\<close>

definition preferred :: "(string \<times> json) list \<Rightarrow> string \<Rightarrow> string \<Rightarrow> json option" where
  "preferred d short long = (case map_of d short of Some v \<Rightarrow> Some v | None \<Rightarrow> map_of d long)"

text \<open>The line of an optional field: none when the field is absent, none when its value
  is empty (false in a condition).\<close>

definition optional_line :: "string \<Rightarrow> json option \<Rightarrow> string list" where
  "optional_line label field =
     (case field of
        None \<Rightarrow> []
      | Some v \<Rightarrow> if truthy v then [''**'' @ label @ '':** '' @ py_str v] else [])"

text \<open>A record that \<^verbatim>\<open>format_search_results\<close> can write: a dictionary whose
  collection identifier, when it has one, is a string.\<close>

definition record_ok :: "json \<Rightarrow> bool" where
  "record_ok r =
     (case r of
        JObj f \<Rightarrow> (case map_of f ''collection'' of None \<Rightarrow> True | Some (JStr a) \<Rightarrow> True | Some _ \<Rightarrow> False)
      | _ \<Rightarrow> False)"

text \<open>The values that compare with an integer: integers, booleans and floats.\<close>

fun is_number :: "json \<Rightarrow> bool" where
  "is_number (JInt i) = True"
| "is_number (JBool b) = True"
| "is_number (JFloat x t) = True"
| "is_number _ = False"

text \<open>A number is greater than a count; the float \<open>Finite m e\<close> is the number
  \<open>m * 2 ^ e\<close>, and of the other floats only the positive infinity is greater than a
  count.\<close>

fun exceeds :: "json \<Rightarrow> nat \<Rightarrow> bool" where
  "exceeds (JInt i) n = (int n < i)"
| "exceeds (JBool b) n = (b \<and> n = 0)"
| "exceeds (JFloat (Finite m e) t) n =
     (if 0 \<le> e then int n < m * 2 ^ nat e else int n * 2 ^ nat (- e) < m)"
| "exceeds (JFloat PosInf t) n = True"
| "exceeds _ n = False"

text \<open>Paging metadata that can be read: absent, or a dictionary whose total, when it has
  one, is a number.\<close>

definition pager_ok :: "(string \<times> json) list \<Rightarrow> bool" where
  "pager_ok d =
     (case map_of d ''pager'' of
        None \<Rightarrow> True
      | Some (JObj p) \<Rightarrow> (case map_of p ''total'' of None \<Rightarrow> True | Some t \<Rightarrow> is_number t)
      | Some _ \<Rightarrow> False)"

text \<open>The total of the paging metadata, when the payload has one.\<close>

definition pager_total :: "(string \<times> json) list \<Rightarrow> json option" where
  "pager_total d =
     (case map_of d ''pager'' of
        Some (JObj p) \<Rightarrow> map_of p ''total''
      | _ \<Rightarrow> None)"

text \<open>The lines of one record in the list of \<^verbatim>\<open>format_search_results\<close>: the number and
  the title (\<^verbatim>\<open>Untitled\<close> without one), the date when the record has one that is not
  empty and not \<^verbatim>\<open>Date unknown\<close>, the link with the collection identifier without
  leading slashes and the pointer, and an empty line.\<close>

definition result_lines :: "nat \<Rightarrow> json \<Rightarrow> string list" where
  "result_lines k r =
     (case r of
        JObj f \<Rightarrow>
          [show_nat k @ ''. **''
             @ (case map_of f ''title'' of Some v \<Rightarrow> py_str v | None \<Rightarrow> ''Untitled'') @ ''**''] @
          (case map_of f ''date'' of
             Some v \<Rightarrow>
               if truthy v \<and> v \<noteq> JStr ''Date unknown''
               then [''   '' @ sym_calendar @ '' '' @ py_str v] else []
           | None \<Rightarrow> []) @
          [''   '' @ sym_link @ '' https://digitalcollections.aucegypt.edu/digital/collection/''
             @ (case map_of f ''collection'' of Some (JStr a) \<Rightarrow> lstrip_slash a | _ \<Rightarrow> [])
             @ ''/id/'' @ (case map_of f ''pointer'' of Some v \<Rightarrow> py_str v | None \<Rightarrow> []),
           []]
      | _ \<Rightarrow> [])"



text \<open>\<^verbatim>\<open>enumerate(xs, i)\<close>\<close>

definition enumerate_from :: "nat \<Rightarrow> 'a list \<Rightarrow> (nat \<times> 'a) list" where
  "enumerate_from i xs = zip [i ..< i + length xs] xs"

text \<open>A key of the lookup matches a name partially when one is a substring of the
  other.\<close>

definition key_matches :: "string \<Rightarrow> string \<Rightarrow> bool" where
  "key_matches n key = (sublist n key \<or> sublist key n)"

text \<open>A service with one collection, whose identifier it gives with a leading slash, and
  one record for the search of \<^verbatim>\<open>x\<close> in that collection, asked for by the
  identifier without the slash.\<close>

definition sample_service :: http where
  "sample_service url =
     (if url = api_url @ ''?q=dmGetCollectionList/json''
      then JList [JObj [(''alias'', JStr ''/coll1''), (''name'', JStr ''Maps'')]]
      else if url = api_url @
          ''?q=dmQuery/coll1/CISOSEARCHALL^x^any^and/title!date!subjec!descri/nosort/5/1/0/0/0/0/0/0/json''
      then JObj [(''records'', JList [JObj [(''title'', JStr ''T'')]])]
      else JObj [(''records'', JList [])])"

definition sample_state :: chatbot where
  "sample_state =
     \<lparr> collections = JList [JObj [(''alias'', JStr ''/coll1''), (''name'', JStr ''Maps'')]],
       collection_lookup = [(''coll1'', ''coll1''), (''maps'', ''coll1'')] \<rparr>"

text \<open>A text starts with a match of the browse pattern: the word \<^verbatim>\<open>browse\<close>, then
  one white space character or more, then a character that is not a newline.\<close>

definition browse_at :: "string \<Rightarrow> bool" where
  "browse_at t =
     (prefix ''browse'' t \<and>
      list_ex (\<lambda>k. list_all is_space (take k (drop 6 t)) \<and> drop 6 t ! k \<noteq> newline)
        [1 ..< length (drop 6 t)])"

text \<open>The items of a pattern that are groups.\<close>

fun is_group :: "re_item \<Rightarrow> bool" where
  "is_group (GroupPlus c) = True"
| "is_group (GroupLazy c) = True"
| "is_group _ = False"

text \<open>The lowercased display name and the identifier, without leading slashes, of a
  loaded collection: of a dictionary whose name, or identifier, is a string or absent.\<close>

definition name_of :: "json \<Rightarrow> string option" where
  "name_of c =
     (case c of
        JObj f \<Rightarrow> (case dict_get f ''name'' (JStr []) of JStr n \<Rightarrow> Some (lower n) | _ \<Rightarrow> None)
      | _ \<Rightarrow> None)"

definition alias_of :: "json \<Rightarrow> string option" where
  "alias_of c =
     (case c of
        JObj f \<Rightarrow> (case dict_get f ''alias'' (JStr []) of JStr a \<Rightarrow> Some (lstrip_slash a) | _ \<Rightarrow> None)
      | _ \<Rightarrow> None)"

text \<open>A text has the word \<^verbatim>\<open>in\<close> as a token when it has a white space character, the
  two letters and a white space character in a row.\<close>

fun has_in_token :: "string \<Rightarrow> bool" where
  "has_in_token [] = False"
| "has_in_token (c # t) =
     ((is_space c \<and> prefix ''in'' t \<and> (case drop 2 t of [] \<Rightarrow> False | d # r \<Rightarrow> is_space d))
      \<or> has_in_token t)"














section \<open>Basic facts\<close>

lemma and_then_Inr [simp]: "and_then (Inr v) f = f v"
  by (simp add: and_then_def)

lemma and_then_Inl [simp]: "and_then (Inl e) f = Inl e"
  by (simp add: and_then_def)

section \<open>Item details\<close>

lemma detail_line_get:
  "detail_line label (dict_get d k (JStr [])) = optional_line label (map_of d k)"
  by (simp add: detail_line_def optional_line_def dict_get_def split: option.splits)

lemma detail_line_preferred:
  "detail_line label (dict_get d short (dict_get d long (JStr []))) =
     optional_line label (preferred d short long)"
  by (simp add: detail_line_def optional_line_def dict_get_def preferred_def split: option.splits)

lemma view_item_line_preferred:
  "view_item_line a (dict_get d short (dict_get d long (JStr []))) =
     (case preferred d short long of
        None \<Rightarrow> []
      | Some p \<Rightarrow>
          if truthy p
          then [nl @ sym_link @ '' **View Item:** '' @ item_url (lstrip_slash a) (py_str p)]
          else [])"
  by (simp add: view_item_line_def dict_get_def preferred_def split: option.splits)

text \<open>
  Claim C5, as the code has it. For a dictionary payload without the key \<^verbatim>\<open>error\<close>,
  \<^verbatim>\<open>format_item_details\<close> writes the heading, then the title line in every case (with
  \<^verbatim>\<open>Untitled\<close> when the payload has no title), then the lines of date, creator,
  subject, description, format and rights in this order, then the link. Creator, subject
  and description are read at the short key (\<^verbatim>\<open>creato\<close>, \<^verbatim>\<open>subjec\<close>,
  \<^verbatim>\<open>descri\<close>) when the payload has it and at the long key otherwise; format is read
  at \<^verbatim>\<open>format\<close> and otherwise at \<^verbatim>\<open>type\<close>. An optional field that is absent, or
  whose value is empty, has no line.
\<close>

theorem format_item_details_fields:
  assumes "''error'' \<notin> set (map fst d)"
  shows "format_item_details (JObj d) collection_alias =
     Inr (join nl
       ([sym_page @ '' **Item Details:**'' @ nl,
         ''**Title:** '' @ (case map_of d ''title'' of Some v \<Rightarrow> py_str v | None \<Rightarrow> ''Untitled'')] @
        optional_line ''Date'' (map_of d ''date'') @
        optional_line ''Creator'' (preferred d ''creato'' ''creator'') @
        optional_line ''Subject'' (preferred d ''subjec'' ''subject'') @
        optional_line ''Description'' (preferred d ''descri'' ''description'') @
        optional_line ''Format'' (preferred d ''format'' ''type'') @
        optional_line ''Rights'' (map_of d ''rights'') @
        (case preferred d ''dmrecord'' ''pointer'' of
           None \<Rightarrow> []
         | Some p \<Rightarrow>
             if truthy p
             then [nl @ sym_link @ '' **View Item:** ''
                     @ item_url (lstrip_slash collection_alias) (py_str p)]
             else [])))"
proof -
  have title: "py_str (dict_get d ''title'' (JStr ''Untitled'')) =
      (case map_of d ''title'' of Some v \<Rightarrow> py_str v | None \<Rightarrow> ''Untitled'')"
    by (simp add: dict_get_def py_str_def split: option.splits)
  show ?thesis
    unfolding format_item_details_def
    using assms
    by (simp only: py_in.simps py_get.simps and_then_Inr if_False title
          detail_line_get detail_line_preferred view_item_line_preferred)
qed

text \<open>A payload with both creator keys, an empty date and no rights: the short key's
  value is written, the date and the rights have no line.\<close>

theorem format_item_details_fields_witness:
  "''error'' \<notin> set (map fst [(''title'', JStr ''Map''), (''creator'', JStr ''B''),
       (''creato'', JStr ''A''), (''date'', JObj [])]) \<and>
   format_item_details (JObj [(''title'', JStr ''Map''), (''creator'', JStr ''B''),
       (''creato'', JStr ''A''), (''date'', JObj [])]) ''/c'' =
     Inr (join nl [sym_page @ '' **Item Details:**'' @ nl, ''**Title:** Map'', ''**Creator:** A''])"
  using format_item_details_fields
    [of "[(''title'', JStr ''Map''), (''creator'', JStr ''B''), (''creato'', JStr ''A''),
          (''date'', JObj [])]" "''/c''"]
  by (simp add: preferred_def optional_line_def py_str_def)

text \<open>Claim C5 as it is written fails: the payload without any field has no title, and
  its title is not left out; the line is written with \<^verbatim>\<open>Untitled\<close>.\<close>

theorem format_item_details_untitled:
  "format_item_details (JObj []) ''coll'' =
     Inr (sym_page @ '' **Item Details:**'' @ nl @ nl @ ''**Title:** Untitled'')"
  by (simp add: format_item_details_def dict_get_def detail_line_def view_item_line_def py_str_def)

section \<open>Search results\<close>

lemma enumerate_from_Nil [simp]: "enumerate_from i [] = []"
  by (simp add: enumerate_from_def)

lemma enumerate_from_Cons [simp]: "enumerate_from i (x # xs) = (i, x) # enumerate_from (Suc i) xs"
  by (simp add: enumerate_from_def upt_conv_Cons del: upt_Suc)

lemma length_enumerate_from [simp]: "length (enumerate_from i xs) = length xs"
  by (simp add: enumerate_from_def)


lemma record_entry_lines: "record_ok r \<Longrightarrow> record_entry k r = Inr (result_lines k r)"
  by (cases r)
     (auto simp: record_entry_def record_ok_def result_lines_def dict_get_def item_url_def
       lstrip_slash_def py_str_def split: option.splits json.splits)

lemma render_records_ok:
  "list_all record_ok rs \<Longrightarrow>
   render_records i rs out =
     Inr (out @ concat (map (\<lambda>(k, r). result_lines k r) (enumerate_from i rs)))"
proof (induction rs arbitrary: i out)
  case Nil
  then show ?case by simp
next
  case (Cons r rs)
  then have ls: "record_entry i r = Inr (result_lines i r)"
    by (simp add: record_entry_lines)
  from Cons have "render_records (Suc i) rs (out @ result_lines i r) =
      Inr ((out @ result_lines i r) @
           concat (map (\<lambda>(k, r). result_lines k r) (enumerate_from (Suc i) rs)))"
    by simp
  with ls show ?case by simp
qed



lemma py_gt_number: "is_number t \<Longrightarrow> py_gt t (int n) = Inr (exceeds t n)"
  by (induction t n rule: exceeds.induct) auto

lemma py_gt_returns: "(\<exists>b. py_gt t n = Inr b) \<longleftrightarrow> is_number t"
  by (cases t) auto

lemma total_tail:
  assumes "pager_ok d" and "1 \<le> n"
  shows "and_then (py_get (dict_get d ''pager'' (JObj [])) ''total'' (JInt (int n))) (\<lambda>total_found.
         and_then (py_gt total_found (int n)) (\<lambda>truncated.
           Inr (join nl (if truncated then out @ [showing_line n total_found] else out)))) =
     Inr (join nl (out @
       (case pager_total d of
          Some t \<Rightarrow>
            if exceeds t n
            then [sym_chart @ '' Showing '' @ show_nat n @ '' of '' @ py_str t @ '' total results'']
            else []
        | None \<Rightarrow> [])))"
proof (cases "map_of d ''pager''")
  case None
  then show ?thesis
    by (simp add: dict_get_def pager_total_def)
next
  case (Some v)
  with assms(1) obtain p where v: "v = JObj p"
    by (cases v) (simp_all add: pager_ok_def)
  show ?thesis
  proof (cases "map_of p ''total''")
    case None
    with Some v show ?thesis
      by (simp add: dict_get_def pager_total_def)
  next
    case tot: (Some w)
    with assms(1) Some v have "is_number w"
      by (simp add: pager_ok_def)
    then have "py_gt w (int n) = Inr (exceeds w n)"
      by (rule py_gt_number)
    with Some v tot show ?thesis
      by (simp add: dict_get_def pager_total_def showing_line_def)
  qed
qed


text \<open>
  Claim C4, as the code has it. A dictionary payload without the key \<^verbatim>\<open>error\<close> that
  has no records, or empty ones, gets the notice that nothing was found, and no summary,
  whatever its total. When its records are a list that is not empty, with records that
  can be written and paging metadata that can be read, \<^verbatim>\<open>format_search_results\<close>
  writes the heading, then the entries of the first ten records and of no other, numbered
  from 1 (the title, the date when the record has one, the link), then the line
  \<^verbatim>\<open>Showing X of Y total results\<close> exactly when the paging metadata has a total and it
  is greater than the number of entries written; the total is an integer, a boolean or a
  float and is written as \<^verbatim>\<open>str\<close> gives it. At most ten entries are written.
\<close>

theorem format_search_results_rendering:
  "(''error'' \<notin> set (map fst d) \<and> (\<forall>v. map_of d ''records'' = Some v \<longrightarrow> \<not> truthy v) \<longrightarrow>
      format_search_results (JObj d) name =
        Inr (sym_mailbox @ '' No items found matching your search criteria.'')) \<and>
   (''error'' \<notin> set (map fst d) \<and> map_of d ''records'' = Some (JList rs) \<and> rs \<noteq> [] \<and>
    list_all record_ok (take 10 rs) \<and> pager_ok d \<longrightarrow>
      format_search_results (JObj d) name =
        Inr (join nl
          ([if truthy name
            then sym_glass @ '' Search results from '' @ [CHR 0x27] @ py_str name @ [CHR 0x27]
                   @ '':'' @ nl
            else sym_glass @ '' Search results:'' @ nl] @
           concat (map (\<lambda>(k, r). result_lines k r) (enumerate_from 1 (take 10 rs))) @
           (case pager_total d of
              Some t \<Rightarrow>
                if exceeds t (length (take 10 rs))
                then [sym_chart @ '' Showing '' @ show_nat (length (take 10 rs)) @ '' of ''
                        @ py_str t @ '' total results'']
                else []
            | None \<Rightarrow> []))) \<and>
      length (enumerate_from 1 (take 10 rs)) \<le> 10)"
proof (intro conjI impI)
  assume h: "''error'' \<notin> set (map fst d) \<and> (\<forall>v. map_of d ''records'' = Some v \<longrightarrow> \<not> truthy v)"
  then have "\<not> truthy (dict_get d ''records'' JNull)"
    by (cases "map_of d ''records''") (simp_all add: dict_get_def)
  with h show "format_search_results (JObj d) name =
        Inr (sym_mailbox @ '' No items found matching your search criteria.'')"
    by (simp add: format_search_results_def)
next
  assume h: "''error'' \<notin> set (map fst d) \<and> map_of d ''records'' = Some (JList rs) \<and> rs \<noteq> [] \<and>
    list_all record_ok (take 10 rs) \<and> pager_ok d"
  have recs: "dict_get d ''records'' JNull = JList rs"
    using h by (simp add: dict_get_def)
  have item: "py_item (JObj d) ''records'' = Inr (JList rs)"
    using h by simp
  have rendered: "render_records 1 (take 10 rs) [results_header name] =
      Inr ([results_header name] @
           concat (map (\<lambda>(k, r). result_lines k r) (enumerate_from 1 (take 10 rs))))"
    using h by (intro render_records_ok) simp
  have len: "1 \<le> length (take 10 rs)"
    using h by (cases rs) simp_all
  have ok: "pager_ok d" using h by simp
  have "format_search_results (JObj d) name =
     Inr (join nl
       (([results_header name] @
        concat (map (\<lambda>(k, r). result_lines k r) (enumerate_from 1 (take 10 rs)))) @
        (case pager_total d of
           Some t \<Rightarrow>
             if exceeds t (length (take 10 rs))
             then [sym_chart @ '' Showing '' @ show_nat (length (take 10 rs)) @ '' of ''
                     @ py_str t @ '' total results'']
             else []
         | None \<Rightarrow> [])))"
    unfolding format_search_results_def
    using h
    by (simp only: py_in.simps py_get.simps and_then_Inr if_False recs item truthy.simps
          not_not if_True py_slice.simps rendered total_tail[OF ok len] simp_thms)
  then show "format_search_results (JObj d) name =
        Inr (join nl
          ([if truthy name
            then sym_glass @ '' Search results from '' @ [CHR 0x27] @ py_str name @ [CHR 0x27]
                   @ '':'' @ nl
            else sym_glass @ '' Search results:'' @ nl] @
           concat (map (\<lambda>(k, r). result_lines k r) (enumerate_from 1 (take 10 rs))) @
           (case pager_total d of
              Some t \<Rightarrow>
                if exceeds t (length (take 10 rs))
                then [sym_chart @ '' Showing '' @ show_nat (length (take 10 rs)) @ '' of ''
                        @ py_str t @ '' total results'']
                else []
            | None \<Rightarrow> [])))"
    by (simp add: results_header_def)
next
  show "length (enumerate_from 1 (take 10 rs)) \<le> 10" by simp
qed


text \<open>Two records, the first with a date, and a total of 12.5: both are written and the
  summary follows. A payload without records and with a total gets the notice.\<close>

theorem format_search_results_rendering_witness:
  "format_search_results (JObj [(''pager'', JObj [(''total'', JFloat (Finite 7 (-1)) ''3.5'')])])
     (JStr ''Maps'') =
     Inr (sym_mailbox @ '' No items found matching your search criteria.'') \<and>
   list_all record_ok (take 10
     [JObj [(''title'', JStr ''A''), (''date'', JStr ''1950''), (''collection'', JStr ''/p15795coll1''),
            (''pointer'', JInt 7)], JObj []]) \<and>
   pager_ok [(''records'', JList
       [JObj [(''title'', JStr ''A''), (''date'', JStr ''1950''), (''collection'', JStr ''/p15795coll1''),
              (''pointer'', JInt 7)], JObj []]),
       (''pager'', JObj [(''total'', JFloat (Finite 25 (-1)) ''12.5'')])] \<and>
   format_search_results
     (JObj [(''records'', JList
       [JObj [(''title'', JStr ''A''), (''date'', JStr ''1950''), (''collection'', JStr ''/p15795coll1''),
              (''pointer'', JInt 7)], JObj []]),
       (''pager'', JObj [(''total'', JFloat (Finite 25 (-1)) ''12.5'')])]) (JStr []) =
     Inr (join nl
       [sym_glass @ '' Search results:'' @ nl,
        ''1. **A**'',
        ''   '' @ sym_calendar @ '' 1950'',
        ''   '' @ sym_link @ '' https://digitalcollections.aucegypt.edu/digital/collection/p15795coll1/id/7'',
        [],
        ''2. **Untitled**'',
        ''   '' @ sym_link @ '' https://digitalcollections.aucegypt.edu/digital/collection//id/'',
        [],
        sym_chart @ '' Showing 2 of 12.5 total results''])"
proof -
  let ?e = "[(''pager'', JObj [(''total'', JFloat (Finite 7 (-1)) ''3.5'')])]"
  let ?rs = "[JObj [(''title'', JStr ''A''), (''date'', JStr ''1950''), (''collection'', JStr ''/p15795coll1''),
              (''pointer'', JInt 7)], JObj []]"
  let ?d = "[(''records'', JList ?rs), (''pager'', JObj [(''total'', JFloat (Finite 25 (-1)) ''12.5'')])]"
  have e: "''error'' \<notin> set (map fst ?e) \<and> (\<forall>v. map_of ?e ''records'' = Some v \<longrightarrow> \<not> truthy v)"
    by simp
  have h: "''error'' \<notin> set (map fst ?d) \<and> map_of ?d ''records'' = Some (JList ?rs) \<and> ?rs \<noteq> [] \<and>
    list_all record_ok (take 10 ?rs) \<and> pager_ok ?d"
    by (simp add: record_ok_def pager_ok_def)
  have eval: "join nl
          ([if truthy (JStr [])
            then sym_glass @ '' Search results from '' @ [CHR 0x27] @ py_str (JStr []) @ [CHR 0x27]
                   @ '':'' @ nl
            else sym_glass @ '' Search results:'' @ nl] @
           concat (map (\<lambda>(k, r). result_lines k r) (enumerate_from 1 (take 10 ?rs))) @
           (case pager_total ?d of
              Some t \<Rightarrow>
                if exceeds t (length (take 10 ?rs))
                then [sym_chart @ '' Showing '' @ show_nat (length (take 10 ?rs)) @ '' of ''
                        @ py_str t @ '' total results'']
                else []
            | None \<Rightarrow> [])) =
     join nl
       [sym_glass @ '' Search results:'' @ nl,
        ''1. **A**'',
        ''   '' @ sym_calendar @ '' 1950'',
        ''   '' @ sym_link @ '' https://digitalcollections.aucegypt.edu/digital/collection/p15795coll1/id/7'',
        [],
        ''2. **Untitled**'',
        ''   '' @ sym_link @ '' https://digitalcollections.aucegypt.edu/digital/collection//id/'',
        [],
        sym_chart @ '' Showing 2 of 12.5 total results'']"
    by code_simp
  from format_search_results_rendering[of ?e "JStr ''Maps''" "[]"] e have first: "format_search_results (JObj ?e) (JStr ''Maps'') =
     Inr (sym_mailbox @ '' No items found matching your search criteria.'')"
    by blast
  from format_search_results_rendering[of ?d "JStr []" ?rs] h
  have "format_search_results (JObj ?d) (JStr []) = Inr (join nl
          ([if truthy (JStr [])
            then sym_glass @ '' Search results from '' @ [CHR 0x27] @ py_str (JStr []) @ [CHR 0x27]
                   @ '':'' @ nl
            else sym_glass @ '' Search results:'' @ nl] @
           concat (map (\<lambda>(k, r). result_lines k r) (enumerate_from 1 (take 10 ?rs))) @
           (case pager_total ?d of
              Some t \<Rightarrow>
                if exceeds t (length (take 10 ?rs))
                then [sym_chart @ '' Showing '' @ show_nat (length (take 10 ?rs)) @ '' of ''
                        @ py_str t @ '' total results'']
                else []
            | None \<Rightarrow> [])))"
    by blast
  then have second: "format_search_results (JObj ?d) (JStr []) = Inr (join nl
       [sym_glass @ '' Search results:'' @ nl,
        ''1. **A**'',
        ''   '' @ sym_calendar @ '' 1950'',
        ''   '' @ sym_link @ '' https://digitalcollections.aucegypt.edu/digital/collection/p15795coll1/id/7'',
        [],
        ''2. **Untitled**'',
        ''   '' @ sym_link @ '' https://digitalcollections.aucegypt.edu/digital/collection//id/'',
        [],
        sym_chart @ '' Showing 2 of 12.5 total results''])"
    by (simp only: eval)
  from h have h4: "list_all record_ok (take 10 ?rs)" and h5: "pager_ok ?d" by blast+
  from first h4 h5 second show ?thesis by (intro conjI)
qed

text \<open>Claim C4 as it is written fails: with no record and a total of five, the total is
  greater than the number of records written, which is zero, and the answer is the notice
  that nothing was found, without a summary.\<close>

theorem format_search_results_empty_with_total:
  "format_search_results
     (JObj [(''records'', JList []), (''pager'', JObj [(''total'', JInt 5)])]) (JStr []) =
     Inr (sym_mailbox @ '' No items found matching your search criteria.'')"
  by (simp add: format_search_results_def dict_get_def)


section \<open>Payloads the formatters accept\<close>




section \<open>Resolving a collection name: properties\<close>

lemma partial_match_first:
  "i < length lk \<Longrightarrow> key_matches n (fst (lk ! i)) \<Longrightarrow>
   (\<forall>j<i. \<not> key_matches n (fst (lk ! j))) \<Longrightarrow>
   partial_match n lk = Some (snd (lk ! i))"
proof (induction lk arbitrary: i)
  case Nil
  then show ?case by simp
next
  case (Cons p lk)
  obtain k v where p: "p = (k, v)" by (cases p)
  show ?case
  proof (cases i)
    case 0
    with Cons.prems p show ?thesis by (simp add: key_matches_def)
  next
    case (Suc i')
    with Cons.prems have "\<not> key_matches n (fst ((p # lk) ! 0))" by blast
    with p have no: "\<not> (sublist n k \<or> sublist k n)" by (simp add: key_matches_def)
    from Cons.prems Suc have "i' < length lk" "key_matches n (fst (lk ! i'))"
      "\<forall>j<i'. \<not> key_matches n (fst (lk ! j))" by auto
    then have "partial_match n lk = Some (snd (lk ! i'))" by (rule Cons.IH)
    with no p Suc show ?thesis by simp
  qed
qed

lemma partial_match_none:
  "(\<forall>key \<in> set (map fst lk). \<not> key_matches n key) \<Longrightarrow> partial_match n lk = None"
  by (induction lk) (auto simp: key_matches_def)

text \<open>
  Claim C2. \<^verbatim>\<open>find_collection_alias\<close> lowercases and trims the name. When the result
  is a key of the lookup, it returns the identifier stored at it. Otherwise it returns the
  identifier of the first item of the lookup, in the order of the lookup, whose key
  matches partially (the name is a substring of the key, or the key of the name). When no
  key matches partially it returns nothing.
\<close>

theorem find_collection_alias_resolution:
  "(map_of lookup (strip (lower name)) = Some a \<longrightarrow>
      find_collection_alias lookup name = Some a) \<and>
   (map_of lookup (strip (lower name)) = None \<and> i < length lookup \<and>
    key_matches (strip (lower name)) (fst (lookup ! i)) \<and>
    (\<forall>j<i. \<not> key_matches (strip (lower name)) (fst (lookup ! j))) \<longrightarrow>
      find_collection_alias lookup name = Some (snd (lookup ! i))) \<and>
   ((\<forall>key \<in> set (map fst lookup). \<not> key_matches (strip (lower name)) key) \<longrightarrow>
      find_collection_alias lookup name = None)"
proof (intro conjI impI)
  assume "map_of lookup (strip (lower name)) = Some a"
  then show "find_collection_alias lookup name = Some a"
    by (simp add: find_collection_alias_def)
next
  assume h: "map_of lookup (strip (lower name)) = None \<and> i < length lookup \<and>
    key_matches (strip (lower name)) (fst (lookup ! i)) \<and>
    (\<forall>j<i. \<not> key_matches (strip (lower name)) (fst (lookup ! j)))"
  then have "partial_match (strip (lower name)) lookup = Some (snd (lookup ! i))"
    by (intro partial_match_first) simp_all
  with h show "find_collection_alias lookup name = Some (snd (lookup ! i))"
    by (simp add: find_collection_alias_def)
next
  assume h: "\<forall>key \<in> set (map fst lookup). \<not> key_matches (strip (lower name)) key"
  have "map_of lookup (strip (lower name)) = None"
  proof (rule ccontr)
    assume "map_of lookup (strip (lower name)) \<noteq> None"
    then have "strip (lower name) \<in> set (map fst lookup)"
      by (metis map_of_eq_None_iff set_map)
    with h show False by (auto simp: key_matches_def)
  qed
  with h show "find_collection_alias lookup name = None"
    by (simp add: find_collection_alias_def partial_match_none)
qed

text \<open>A lookup of three keys: a name that is a key, a name that only the second key
  matches, and a name that no key matches.\<close>

theorem find_collection_alias_resolution_witness:
  "map_of [(''maps'', ''p1''), (''old maps'', ''p2''), (''photos'', ''p3'')] (strip (lower ''  Old Maps '')) = Some ''p2'' \<and>
   find_collection_alias [(''maps'', ''p1''), (''old maps'', ''p2''), (''photos'', ''p3'')] ''  Old Maps '' = Some ''p2'' \<and>
   map_of [(''maps'', ''p1''), (''old maps'', ''p2''), (''photos'', ''p3'')] (strip (lower ''OLD'')) = None \<and>
   key_matches (strip (lower ''OLD'')) ''old maps'' \<and>
   \<not> key_matches (strip (lower ''OLD'')) ''maps'' \<and>
   find_collection_alias [(''maps'', ''p1''), (''old maps'', ''p2''), (''photos'', ''p3'')] ''OLD'' = Some ''p2'' \<and>
   \<not> key_matches (strip (lower ''xyz'')) ''maps'' \<and>
   \<not> key_matches (strip (lower ''xyz'')) ''old maps'' \<and>
   \<not> key_matches (strip (lower ''xyz'')) ''photos'' \<and>
   find_collection_alias [(''maps'', ''p1''), (''old maps'', ''p2''), (''photos'', ''p3'')] ''xyz'' = None"
proof -
  let ?lk = "[(''maps'', ''p1''), (''old maps'', ''p2''), (''photos'', ''p3'')]"
  have n1: "strip (lower ''  Old Maps '') = ''old maps''" by code_simp
  have n2: "strip (lower ''OLD'') = ''old''" by code_simp
  have n3: "strip (lower ''xyz'') = ''xyz''" by code_simp
  have e: "map_of ?lk (strip (lower ''  Old Maps '')) = Some ''p2''"
    by (simp add: n1)
  have p: "map_of ?lk (strip (lower ''OLD'')) = None"
    "key_matches (strip (lower ''OLD'')) ''old maps''"
    "\<not> key_matches (strip (lower ''OLD'')) ''maps''"
    by (simp_all add: n2 key_matches_def sublist_code)
  have m: "\<not> key_matches (strip (lower ''xyz'')) ''maps''"
    "\<not> key_matches (strip (lower ''xyz'')) ''old maps''"
    "\<not> key_matches (strip (lower ''xyz'')) ''photos''"
    by (simp_all add: n3 key_matches_def sublist_code)
  have r1: "find_collection_alias ?lk ''  Old Maps '' = Some ''p2''"
    using find_collection_alias_resolution[of ?lk "''  Old Maps ''" "''p2''"] e by blast
  have "find_collection_alias ?lk ''OLD'' = Some (snd (?lk ! 1))"
    using find_collection_alias_resolution[of ?lk "''OLD''" _ 1] p by simp
  then have r2: "find_collection_alias ?lk ''OLD'' = Some ''p2''" by simp
  have r3: "find_collection_alias ?lk ''xyz'' = None"
    using find_collection_alias_resolution[of ?lk "''xyz''"] m by simp
  from e p m r1 r2 r3 show ?thesis by (intro conjI)
qed


section \<open>Identifiers without a leading slash\<close>

lemma lstrip_slash_clean: "\<not> prefix ''/'' (lstrip_slash s)"
proof
  assume "prefix ''/'' (lstrip_slash s)"
  then obtain r where r: "dropWhile (\<lambda>c. c = CHR ''/'') s = CHR ''/'' # r"
    by (auto simp: lstrip_slash_def prefix_def)
  with hd_dropWhile[of "\<lambda>c. c = CHR ''/''" s] show False by simp
qed

lemma update_values:
  "(k', v') \<in> set (AList.update k v al) \<Longrightarrow> (k', v') = (k, v) \<or> (k', v') \<in> set al"
  by (induction al) (auto split: if_splits)

lemma load_lookup_clean:
  "load_lookup cs lk = Inr lk' \<Longrightarrow> (\<forall>(k, a) \<in> set lk. \<not> prefix ''/'' a) \<Longrightarrow>
   (\<forall>(k, a) \<in> set lk'. \<not> prefix ''/'' a)"
proof (induction cs arbitrary: lk)
  case Nil
  then show ?case by simp
next
  case (Cons c cs)
  from Cons.prems(1) obtain f where c: "c = JObj f"
    by (cases c) simp_all
  from Cons.prems(1) c obtain s where s: "dict_get f ''alias'' (JStr []) = JStr s"
    by (cases "dict_get f ''alias'' (JStr [])") simp_all
  show ?case
  proof (cases "lstrip_slash s = []")
    case True
    with Cons.prems(1) c s have "load_lookup cs lk = Inr lk'" by simp
    then show ?thesis using Cons.prems(2) by (rule Cons.IH)
  next
    case False
    with Cons.prems(1) c s obtain nm where nm: "dict_get f ''name'' (JStr []) = JStr nm"
      by (cases "dict_get f ''name'' (JStr [])") simp_all
    let ?lk = "AList.update (lower nm) (lstrip_slash s)
                 (AList.update (lower (lstrip_slash s)) (lstrip_slash s) lk)"
    from Cons.prems(1) c s nm False have run: "load_lookup cs ?lk = Inr lk'" by simp
    have "\<forall>(k, a) \<in> set ?lk. \<not> prefix ''/'' a"
      using Cons.prems(2) lstrip_slash_clean[of s]
      by (auto dest!: update_values)
    with run show ?thesis by (rule Cons.IH)
  qed
qed

lemma partial_match_value: "partial_match n lk = Some a \<Longrightarrow> a \<in> snd ` set lk"
  by (induction lk) (auto split: if_splits)

lemma find_collection_alias_value:
  "find_collection_alias lk name = Some a \<Longrightarrow> a \<in> snd ` set lk"
  by (auto simp: find_collection_alias_def Let_def split: option.splits
      dest: map_of_SomeD partial_match_value intro: rev_image_eqI)

text \<open>
  Claim C9, as the code has it. Every identifier in the lookup after \<^verbatim>\<open>initialize\<close>
  (started from a lookup with this property, as the empty one) is without a leading slash,
  and so is every identifier that \<^verbatim>\<open>find_collection_alias\<close> returns from it. The
  identifier in the link of a record, in \<^verbatim>\<open>format_search_results\<close> and in
  \<^verbatim>\<open>search_all_collections\<close>, and in the link of \<^verbatim>\<open>format_item_details\<close>, is
  without a leading slash. The stored list of collections is the answer of the service,
  unchanged: its identifiers are as the service gave them.
\<close>

theorem identifiers_without_leading_slash:
  "(initialize http st = Inr (loaded, st') \<and>
    (\<forall>(k, a) \<in> set (collection_lookup st). \<not> prefix ''/'' a) \<longrightarrow>
      (\<forall>(k, a) \<in> set (collection_lookup st'). \<not> prefix ''/'' a) \<and>
      (\<forall>name a. find_collection_alias (collection_lookup st') name = Some a \<longrightarrow>
         \<not> prefix ''/'' a)) \<and>
   (initialize http st = Inr (loaded, st') \<and> loaded \<longrightarrow>
      get_collections http = Inr (collections st')) \<and>
   (record_entry i r = Inr ls \<longrightarrow>
      (\<exists>c p. \<not> prefix ''/'' c \<and>
         ''   '' @ sym_link @ '' https://digitalcollections.aucegypt.edu/digital/collection/''
           @ c @ ''/id/'' @ p \<in> set ls)) \<and>
   (combined_entry i r = Inr ls' \<longrightarrow>
      (\<exists>c p. \<not> prefix ''/'' c \<and>
         ''   '' @ sym_link @ '' https://digitalcollections.aucegypt.edu/digital/collection/''
           @ c @ ''/id/'' @ p \<in> set ls')) \<and>
   (\<forall>l \<in> set (view_item_line collection_alias pointer).
      \<exists>c p. \<not> prefix ''/'' c \<and>
        l = nl @ sym_link @ '' **View Item:** https://digitalcollections.aucegypt.edu/digital/collection/''
              @ c @ ''/id/'' @ p)"
proof (intro conjI impI)
  assume h: "initialize http st = Inr (loaded, st') \<and>
    (\<forall>(k, a) \<in> set (collection_lookup st). \<not> prefix ''/'' a)"
  have inv: "\<forall>(k, a) \<in> set (collection_lookup st'). \<not> prefix ''/'' a"
  proof (cases "get_collections http")
    case (Inl e)
    with h show ?thesis by (simp add: initialize_def)
  next
    case (Inr data)
    show ?thesis
    proof (cases "py_in ''error'' data")
      case (Inl e)
      with h Inr show ?thesis by (simp add: initialize_def)
    next
      case failed: (Inr b)
      show ?thesis
      proof (cases b)
        case True
        with h Inr failed have "st' = st"
          by (cases "py_item data ''error''") (simp_all add: initialize_def)
        with h show ?thesis by simp
      next
        case False
        show ?thesis
        proof (cases "py_iter data")
          case (Inl e)
          with h Inr failed False show ?thesis by (simp add: initialize_def)
        next
          case cs: (Inr cs)
          show ?thesis
          proof (cases "load_lookup cs (collection_lookup st)")
            case (Inl e)
            with h Inr failed False cs show ?thesis by (simp add: initialize_def)
          next
            case lk: (Inr lk)
            with h Inr failed False cs have "collection_lookup st' = lk"
              by (cases "py_len data") (auto simp: initialize_def)
            with load_lookup_clean[OF lk] h show ?thesis by simp
          qed
        qed
      qed
    qed
  qed
  show "\<forall>(k, a) \<in> set (collection_lookup st'). \<not> prefix ''/'' a" by (rule inv)
  show "\<forall>name a. find_collection_alias (collection_lookup st') name = Some a \<longrightarrow>
         \<not> prefix ''/'' a"
    using inv by (auto dest!: find_collection_alias_value)
next
  assume h: "initialize http st = Inr (loaded, st') \<and> loaded"
  show "get_collections http = Inr (collections st')"
  proof (cases "get_collections http")
    case (Inl e)
    with h show ?thesis by (simp add: initialize_def)
  next
    case (Inr data)
    show ?thesis
    proof (cases "py_in ''error'' data")
      case (Inl e)
      with h Inr show ?thesis by (simp add: initialize_def)
    next
      case failed: (Inr b)
      show ?thesis
      proof (cases b)
        case True
        with h Inr failed show ?thesis
          by (cases "py_item data ''error''") (auto simp: initialize_def)
      next
        case False
        show ?thesis
        proof (cases "py_iter data")
          case (Inl e)
          with h Inr failed False show ?thesis by (simp add: initialize_def)
        next
          case cs: (Inr cs)
          show ?thesis
          proof (cases "load_lookup cs (collection_lookup st)")
            case (Inl e)
            with h Inr failed False cs show ?thesis by (simp add: initialize_def)
          next
            case lk: (Inr lk)
            with h Inr failed False cs show ?thesis
              by (cases "py_len data") (auto simp: initialize_def)
          qed
        qed
      qed
    qed
  qed
next
  assume h: "record_entry i r = Inr ls"
  then obtain f where r: "r = JObj f" by (cases r) (simp_all add: record_entry_def)
  from h r obtain s where s: "dict_get f ''collection'' (JStr []) = JStr s"
    by (cases "dict_get f ''collection'' (JStr [])") (simp_all add: record_entry_def)
  from h r s have "''   '' @ sym_link @ '' https://digitalcollections.aucegypt.edu/digital/collection/''
      @ lstrip_slash s @ ''/id/'' @ py_str (dict_get f ''pointer'' (JStr [])) \<in> set ls"
    by (auto simp: record_entry_def item_url_def)
  with lstrip_slash_clean[of s]
  show "\<exists>c p. \<not> prefix ''/'' c \<and>
         ''   '' @ sym_link @ '' https://digitalcollections.aucegypt.edu/digital/collection/''
           @ c @ ''/id/'' @ p \<in> set ls"
    by blast
next
  assume h: "combined_entry i r = Inr ls'"
  then obtain f where r: "r = JObj f" by (cases r) (simp_all add: combined_entry_def)
  from h r obtain s where s: "dict_get f ''collection'' (JStr []) = JStr s"
    by (cases "dict_get f ''collection'' (JStr [])") (simp_all add: combined_entry_def)
  from h r s have "''   '' @ sym_link @ '' https://digitalcollections.aucegypt.edu/digital/collection/''
      @ lstrip_slash s @ ''/id/'' @ py_str (dict_get f ''pointer'' (JStr [])) \<in> set ls'"
    by (auto simp: combined_entry_def item_url_def)
  with lstrip_slash_clean[of s]
  show "\<exists>c p. \<not> prefix ''/'' c \<and>
         ''   '' @ sym_link @ '' https://digitalcollections.aucegypt.edu/digital/collection/''
           @ c @ ''/id/'' @ p \<in> set ls'"
    by blast
next
  show "\<forall>l \<in> set (view_item_line collection_alias pointer).
      \<exists>c p. \<not> prefix ''/'' c \<and>
        l = nl @ sym_link @ '' **View Item:** https://digitalcollections.aucegypt.edu/digital/collection/''
              @ c @ ''/id/'' @ p"
    using lstrip_slash_clean[of collection_alias]
    by (auto simp: view_item_line_def item_url_def)
qed

lemma sample_initialize: "initialize sample_service new_chatbot = Inr (True, sample_state)"
  by code_simp

text \<open>The sample service: the lookup it leaves, the list it stores, and the link of a
  record whose collection identifier has two leading slashes.\<close>

theorem identifiers_without_leading_slash_witness:
  "initialize sample_service new_chatbot = Inr (True, sample_state) \<and>
   find_collection_alias (collection_lookup sample_state) ''Maps'' = Some ''coll1'' \<and>
   \<not> prefix ''/'' ''coll1'' \<and>
   get_collections sample_service = Inr (collections sample_state) \<and>
   record_entry 1 (JObj [(''collection'', JStr ''//c''), (''pointer'', JInt 7)]) =
     Inr [''1. **Untitled**'',
          ''   '' @ sym_link @ '' https://digitalcollections.aucegypt.edu/digital/collection/c/id/7'',
          []] \<and>
   (\<exists>c p. \<not> prefix ''/'' c \<and>
      ''   '' @ sym_link @ '' https://digitalcollections.aucegypt.edu/digital/collection/''
        @ c @ ''/id/'' @ p \<in>
        set [''1. **Untitled**'',
             ''   '' @ sym_link @ '' https://digitalcollections.aucegypt.edu/digital/collection/c/id/7'',
             []])"
proof -
  have init: "initialize sample_service new_chatbot = Inr (True, sample_state)"
    by (rule sample_initialize)
  have empty: "\<forall>(k, a) \<in> set (collection_lookup new_chatbot). \<not> prefix ''/'' a"
    by (simp add: new_chatbot_def)
  have found: "find_collection_alias (collection_lookup sample_state) ''Maps'' = Some ''coll1''"
    by code_simp
  have entry: "record_entry 1 (JObj [(''collection'', JStr ''//c''), (''pointer'', JInt 7)]) =
     Inr [''1. **Untitled**'',
          ''   '' @ sym_link @ '' https://digitalcollections.aucegypt.edu/digital/collection/c/id/7'',
          []]"
    by code_simp
  note facts = identifiers_without_leading_slash
    [of sample_service new_chatbot True sample_state 1
        "JObj [(''collection'', JStr ''//c''), (''pointer'', JInt 7)]"
        "[''1. **Untitled**'',
          ''   '' @ sym_link @ '' https://digitalcollections.aucegypt.edu/digital/collection/c/id/7'',
          []]"
        "[]" "[]" JNull]
  from facts init empty found have clean: "\<not> prefix ''/'' ''coll1''"
    by blast
  from facts init have stored: "get_collections sample_service = Inr (collections sample_state)"
    by blast
  from facts entry have url: "\<exists>c p. \<not> prefix ''/'' c \<and>
      ''   '' @ sym_link @ '' https://digitalcollections.aucegypt.edu/digital/collection/''
        @ c @ ''/id/'' @ p \<in>
        set [''1. **Untitled**'',
             ''   '' @ sym_link @ '' https://digitalcollections.aucegypt.edu/digital/collection/c/id/7'',
             []]"
    by blast
  from init found clean stored entry url show ?thesis by (intro conjI)
qed

text \<open>Claim C9 as it is written fails for the stored list of collections that
  \<^verbatim>\<open>search_all_collections\<close> uses: \<^verbatim>\<open>initialize\<close> stores the identifier
  \<^verbatim>\<open>/coll1\<close> as the service gave it, \<^verbatim>\<open>search_all_collections\<close> passes it on
  with its slash, so that the request is for \<^verbatim>\<open>dmQuery//coll1/...\<close>, and the record
  that the service has under \<^verbatim>\<open>dmQuery/coll1/...\<close> is not found.\<close>

theorem stored_identifier_keeps_slash:
  "initialize sample_service new_chatbot = Inr (True, sample_state) \<and>
   collections sample_state = JList [JObj [(''alias'', JStr ''/coll1''), (''name'', JStr ''Maps'')]] \<and>
   search_items sample_service (JStr ''/coll1'') ''x'' 5 =
     Inr (sample_service (api_url @
       ''?q=dmQuery//coll1/CISOSEARCHALL^x^any^and/title!date!subjec!descri/nosort/5/1/0/0/0/0/0/0/json'')) \<and>
   search_all_collections sample_service sample_state ''x'' =
     Inr (sym_mailbox @ '' No items found for '' @ [CHR 0x27] @ ''x'' @ [CHR 0x27]
            @ '' across searched collections.'')"
  by code_simp


section \<open>Trimming and lowercasing\<close>

lemma of_char_less_256: "(of_char c :: nat) < 256"
proof -
  have "(of_char c :: nat) mod 256 < 256" by (rule mod_less_divisor) simp
  then show ?thesis by simp
qed

lemma is_upper_lower_char [simp]: "\<not> is_upper (lower_char c)"
  using of_char_less_256[of c]
  by (simp add: lower_char_def is_upper_def Let_def)

lemma lower_char_idem [simp]: "lower_char (lower_char c) = lower_char c"
  by (simp add: lower_char_def[of "lower_char c"])

lemma is_space_lower_char [simp]: "is_space (lower_char c) = is_space c"
  using of_char_less_256[of c]
  by (auto simp: lower_char_def is_upper_def is_space_def Let_def)

lemma lower_idem [simp]: "lower (lower s) = lower s"
  by (simp add: lower_def)

lemma dropWhile_space_lower: "dropWhile is_space (lower s) = lower (dropWhile is_space s)"
  by (simp add: lower_def dropWhile_map comp_def)

lemma rev_lower: "rev (lower s) = lower (rev s)"
  by (simp add: lower_def rev_map)

lemma strip_lower: "strip (lower s) = lower (strip s)"
  by (simp add: strip_def dropWhile_space_lower rev_lower)

lemma strip_clean_start: "strip s = [] \<or> \<not> is_space (hd (strip s))"
proof (cases "strip s = []")
  case True
  then show ?thesis by simp
next
  case False
  let ?t = "dropWhile is_space s"
  have "prefix (strip s) ?t"
    unfolding strip_def
    by (metis append_take_drop_id dropWhile_eq_drop prefix_def rev_append rev_rev_ident suffix_def suffix_to_prefix suffix_dropWhile)
  then obtain zs where zs: "?t = strip s @ zs"
    by (auto simp: prefix_def)
  with False have "hd ?t = hd (strip s)" by simp
  moreover from zs False have "?t \<noteq> []" by (metis append_is_Nil_conv)
  ultimately show ?thesis
    using hd_dropWhile[of is_space s] by simp
qed

lemma strip_clean_end: "strip s = [] \<or> \<not> is_space (last (strip s))"
proof (cases "strip s = []")
  case True
  then show ?thesis by simp
next
  case False
  then have ne: "dropWhile is_space (rev (dropWhile is_space s)) \<noteq> []"
    by (simp add: strip_def)
  have "last (strip s) = hd (dropWhile is_space (rev (dropWhile is_space s)))"
    using ne by (simp add: strip_def last_rev)
  with hd_dropWhile[OF ne] show ?thesis by simp
qed

lemma strip_fixed: "(s = [] \<or> \<not> is_space (hd s)) \<Longrightarrow> (s = [] \<or> \<not> is_space (last s)) \<Longrightarrow> strip s = s"
proof -
  assume a: "s = [] \<or> \<not> is_space (hd s)" and b: "s = [] \<or> \<not> is_space (last s)"
  from a have 1: "dropWhile is_space s = s" by (cases s) auto
  from b have 2: "dropWhile is_space (rev s) = rev s"
    by (cases "rev s") (auto simp: hd_rev[symmetric] simp del: hd_rev)
  show ?thesis by (simp add: strip_def 1 2)
qed

lemma strip_idem [simp]: "strip (strip s) = strip s"
  using strip_clean_start[of s] strip_clean_end[of s] by (rule strip_fixed)

lemma normal_form [simp]: "lower (strip (lower (strip s))) = lower (strip s)"
  by (simp add: strip_lower)

section \<open>The matcher\<close>

lemma first_some_Some: "first_some f ns = Some r \<Longrightarrow> \<exists>n \<in> set ns. f n = Some r"
  by (induction ns) (auto split: option.splits)

lemma first_some_None: "first_some f ns = None \<longleftrightarrow> (\<forall>n \<in> set ns. f n = None)"
  by (induction ns) (auto split: option.splits)

lemma first_some_hit: "f n = Some r \<Longrightarrow> first_some f (n # ns) = Some r"
  by simp

lemma first_some_skip: "\<forall>n \<in> set ms. f n = None \<Longrightarrow> first_some f (ms @ ns) = first_some f ns"
  by (induction ms) auto

lemma sublist_drop_trans: "sublist g (drop n s) \<Longrightarrow> sublist g s"
  by (metis sublist_drop sublist_order.order_trans)

lemma match_here_groups:
  "match_here pat s = Some gs \<Longrightarrow> length gs = length (filter is_group pat) \<and> (\<forall>g \<in> set gs. sublist g s)"
proof (induction pat arbitrary: s gs)
  case Nil
  then show ?case by simp
next
  case (Cons it its)
  show ?case
  proof (cases it)
    case (Lit l)
    with Cons.prems have "match_here its (drop (length l) s) = Some gs"
      by (simp split: if_splits)
    from Cons.IH[OF this] Lit show ?thesis
      by (auto intro: sublist_drop_trans)
  next
    case (Plus c)
    with Cons.prems obtain n where "match_here its (drop n s) = Some gs"
      by (auto dest: first_some_Some)
    from Cons.IH[OF this] Plus show ?thesis
      by (auto intro: sublist_drop_trans)
  next
    case (GroupPlus c)
    with Cons.prems obtain n gs' where "match_here its (drop n s) = Some gs'" "gs = take n s # gs'"
      by (auto dest!: first_some_Some)
    with Cons.IH[of "drop n s" gs'] GroupPlus show ?thesis
      by (auto intro: sublist_drop_trans)
  next
    case (GroupLazy c)
    with Cons.prems obtain n gs' where "match_here its (drop n s) = Some gs'" "gs = take n s # gs'"
      by (auto dest!: first_some_Some)
    with Cons.IH[of "drop n s" gs'] GroupLazy show ?thesis
      by (auto intro: sublist_drop_trans)
  qed
qed

lemma re_search_groups:
  "re_search pat s = Some gs \<Longrightarrow> length gs = length (filter is_group pat) \<and> (\<forall>g \<in> set gs. sublist g s)"
proof -
  assume "re_search pat s = Some gs"
  then obtain i where "match_here pat (drop i s) = Some gs"
    by (auto simp: re_search_def dest: first_some_Some)
  from match_here_groups[OF this] show ?thesis
    by (auto intro: sublist_drop_trans)
qed

lemma lower_fixed_iff: "lower s = s \<longleftrightarrow> (\<forall>c \<in> set s. lower_char c = c)"
  by (simp add: lower_def map_idI) (metis map_eq_conv map_ident)

lemma lower_sublist: "lower u = u \<Longrightarrow> sublist g u \<Longrightarrow> lower g = g"
  by (auto simp: lower_fixed_iff dest: set_mono_sublist)

lemma lower_strip_fixed: "lower g = g \<Longrightarrow> lower (strip g) = strip g"
  by (metis strip_lower)

lemma and_then_eq_Inr: "and_then m f = Inr x \<longleftrightarrow> (\<exists>v. m = Inr v \<and> f v = Inr x)"
  by (cases m) simp_all

section \<open>Case and surrounding white space of a query\<close>

lemma resolve_intent_normal: "resolve_intent colls (lower (strip s)) = resolve_intent colls s"
  by (simp add: resolve_intent_def)

lemma group_lowered:
  assumes "re_search pat u = Some gs" and "lower u = u" and "i < length (filter is_group pat)"
  shows "lower (gs ! i) = gs ! i"
proof -
  from re_search_groups[OF assms(1)] assms(3) have "sublist (gs ! i) u"
    by (metis nth_mem)
  with assms(2) show ?thesis by (rule lower_sublist)
qed

lemma resolve_intent_lowered:
  assumes "resolve_intent colls s = Inr it"
  shows "(case it of
           SearchAll t \<Rightarrow> lower t = t
         | SearchInCollection t c \<Rightarrow> lower t = t \<and> lower c = c
         | ItemDetail c i \<Rightarrow> lower c = c \<and> lower i = i
         | Browse c \<Rightarrow> re_search browse_re (lower (strip s)) = None \<or> lower c = c
         | _ \<Rightarrow> True)"
proof -
  let ?u = "lower (strip s)"
  have u: "lower ?u = ?u" by simp
  have d7: "lower (strip (drop 7 ?u)) = strip (drop 7 ?u)"
    by (rule lower_strip_fixed) (rule lower_sublist[OF u], simp)
  have b: "lower (strip (gs ! 0)) = strip (gs ! 0)" if "re_search browse_re ?u = Some gs" for gs
    by (rule lower_strip_fixed, rule group_lowered[OF that u]) (simp add: browse_re_def)
  have s0: "lower (strip (gs ! 0)) = strip (gs ! 0)" if "re_search search_in_re ?u = Some gs" for gs
    by (rule lower_strip_fixed, rule group_lowered[OF that u]) (simp add: search_in_re_def)
  have s1: "lower (strip (gs ! Suc 0)) = strip (gs ! Suc 0)" if "re_search search_in_re ?u = Some gs" for gs
    by (rule lower_strip_fixed, rule group_lowered[OF that u]) (simp add: search_in_re_def)
  have i0: "lower (gs ! 0) = gs ! 0" if "re_search item_re ?u = Some gs" for gs
    by (rule group_lowered[OF that u]) (simp add: item_re_def)
  have i1: "lower (gs ! Suc 0) = gs ! Suc 0" if "re_search item_re ?u = Some gs" for gs
    by (rule group_lowered[OF that u]) (simp add: item_re_def)
  from assms show ?thesis
    unfolding resolve_intent_def Let_def
    by (auto simp: and_then_eq_Inr u d7 b s0 s1 i0 i1 split: if_splits option.splits)
qed

text \<open>
  Claim C10. \<^verbatim>\<open>process_query\<close> on an input and on its trimmed, lowercased form return
  the same (the same text or the same exception), for one and the same service. The
  arguments that the rules take out of the input are lowercase: the terms of a search, the
  collection name of a search in a collection, the two tokens of an item query, and the
  rest of a browse query. (The other browse rule passes on the identifier of a loaded
  collection, which \<^verbatim>\<open>find_collection_alias\<close> lowercases when it looks it up.)
\<close>

theorem process_query_normalizes:
  "process_query http st s = process_query http st (lower (strip s)) \<and>
   (\<forall>t c i.
      (resolve_intent (collections st) s = Inr (SearchAll t) \<longrightarrow> lower t = t) \<and>
      (resolve_intent (collections st) s = Inr (SearchInCollection t c) \<longrightarrow>
         lower t = t \<and> lower c = c) \<and>
      (resolve_intent (collections st) s = Inr (ItemDetail c i) \<longrightarrow> lower c = c \<and> lower i = i) \<and>
      (resolve_intent (collections st) s = Inr (Browse c) \<and>
       re_search browse_re (lower (strip s)) \<noteq> None \<longrightarrow> lower c = c))"
proof (intro conjI allI impI)
  show "process_query http st s = process_query http st (lower (strip s))"
    by (simp add: process_query_def resolve_intent_normal)
next
  fix t assume "resolve_intent (collections st) s = Inr (SearchAll t)"
  from resolve_intent_lowered[OF this] show "lower t = t" by simp
next
  fix t c assume "resolve_intent (collections st) s = Inr (SearchInCollection t c)"
  from resolve_intent_lowered[OF this] show "lower t = t" "lower c = c" by simp_all
next
  fix c i assume "resolve_intent (collections st) s = Inr (ItemDetail c i)"
  from resolve_intent_lowered[OF this] show "lower c = c" "lower i = i" by simp_all
next
  fix c assume "resolve_intent (collections st) s = Inr (Browse c) \<and>
       re_search browse_re (lower (strip s)) \<noteq> None"
  with resolve_intent_lowered[of "collections st" s "Browse c"] show "lower c = c" by simp
qed


text \<open>A query with capitals and surrounding blanks.\<close>

theorem process_query_normalizes_witness:
  "process_query sample_service sample_state ''  Search Ottoman Empire In Photographs  '' =
     process_query sample_service sample_state
       (lower (strip ''  Search Ottoman Empire In Photographs  '')) \<and>
   lower (strip ''  Search Ottoman Empire In Photographs  '') =
     ''search ottoman empire in photographs'' \<and>
   resolve_intent (collections sample_state) ''  Search Ottoman Empire In Photographs  '' =
     Inr (SearchInCollection ''ottoman empire'' ''photographs'') \<and>
   lower ''ottoman empire'' = ''ottoman empire'' \<and> lower ''photographs'' = ''photographs''"
proof -
  note facts = process_query_normalizes
    [of sample_service sample_state "''  Search Ottoman Empire In Photographs  ''"]
  have n: "lower (strip ''  Search Ottoman Empire In Photographs  '') =
     ''search ottoman empire in photographs''"
    by code_simp
  have r: "resolve_intent (collections sample_state) ''  Search Ottoman Empire In Photographs  '' =
     Inr (SearchInCollection ''ottoman empire'' ''photographs'')"
    by code_simp
  from facts r have l: "lower ''ottoman empire'' = ''ottoman empire'' \<and>
      lower ''photographs'' = ''photographs''"
    by blast
  from facts n r l show ?thesis by blast
qed


section \<open>The browse rule\<close>

lemma le_length_takeWhile:
  "n \<le> length (takeWhile P s) \<longleftrightarrow> n \<le> length s \<and> (\<forall>x \<in> set (take n s). P x)"
proof (induction s arbitrary: n)
  case Nil
  then show ?case by simp
next
  case (Cons a s)
  then show ?case by (cases n) auto
qed

lemma mem_run_lengths:
  "n \<in> set (run_lengths c s) \<longleftrightarrow>
     1 \<le> n \<and> n \<le> length s \<and> (\<forall>x \<in> set (take n s). in_class c x)"
  by (simp add: run_lengths_def le_length_takeWhile less_Suc_eq_le del: upt_Suc)

lemma rev_run_lengths:
  "takeWhile (in_class c) s \<noteq> [] \<Longrightarrow>
   rev (run_lengths c s) =
     length (takeWhile (in_class c) s) # rev [1 ..< length (takeWhile (in_class c) s)]"
  by (cases "length (takeWhile (in_class c) s)") (simp_all add: run_lengths_def)

lemma match_Lit:
  "match_here (Lit l # its) s = (if prefix l s then match_here its (drop (length l) s) else None)"
  by simp

lemma match_Plus:
  "match_here (Plus c # its) s =
     first_some (\<lambda>n. match_here its (drop n s)) (rev (run_lengths c s))"
  by simp

lemma match_GroupPlus:
  "match_here (GroupPlus c # its) s =
     first_some (\<lambda>n. map_option (\<lambda>gs. take n s # gs) (match_here its (drop n s)))
       (rev (run_lengths c s))"
  by simp

lemma match_GroupLazy:
  "match_here (GroupLazy c # its) s =
     first_some (\<lambda>n. map_option (\<lambda>gs. take n s # gs) (match_here its (drop n s)))
       (run_lengths c s)"
  by simp

declare match_here.simps(2) [simp del]

lemma is_space_newline [simp]: "is_space newline"
  by (simp add: is_space_def newline_def)

text \<open>The last item of a pattern, a greedy group of any characters, takes the rest of the
  line.\<close>

lemma match_rest_of_line:
  "match_here [GroupPlus AnyChar] r =
     (if r \<noteq> [] \<and> hd r \<noteq> newline then Some [takeWhile (\<lambda>c. c \<noteq> newline) r] else None)"
proof (cases "r \<noteq> [] \<and> hd r \<noteq> newline")
  case True
  then have ne: "takeWhile (in_class AnyChar) r \<noteq> []"
    by (cases r) auto
  have "takeWhile (in_class AnyChar) r = takeWhile (\<lambda>c. c \<noteq> newline) r"
    by (rule takeWhile_cong) simp_all
  with True ne show ?thesis
    by (simp add: match_GroupPlus rev_run_lengths takeWhile_eq_take[symmetric])
next
  case False
  then have "takeWhile (in_class AnyChar) r = []"
    by (cases r) auto
  with False show ?thesis
    by (simp add: match_GroupPlus run_lengths_def)
qed

lemma match_space_then:
  "match_here (Plus Space # its) t \<noteq> None \<longleftrightarrow>
     (\<exists>w r. t = w @ r \<and> w \<noteq> [] \<and> (\<forall>x \<in> set w. is_space x) \<and> match_here its r \<noteq> None)"
proof
  assume "match_here (Plus Space # its) t \<noteq> None"
  then obtain n where n: "n \<in> set (run_lengths Space t)" "match_here its (drop n t) \<noteq> None"
    by (auto simp: match_Plus first_some_None)
  then have "t = take n t @ drop n t" "take n t \<noteq> []" "\<forall>x \<in> set (take n t). is_space x"
    by (auto simp: mem_run_lengths)
  with n(2) show "\<exists>w r. t = w @ r \<and> w \<noteq> [] \<and> (\<forall>x \<in> set w. is_space x) \<and> match_here its r \<noteq> None"
    by blast
next
  assume "\<exists>w r. t = w @ r \<and> w \<noteq> [] \<and> (\<forall>x \<in> set w. is_space x) \<and> match_here its r \<noteq> None"
  then obtain w r where t: "t = w @ r" "w \<noteq> []" "\<forall>x \<in> set w. is_space x" "match_here its r \<noteq> None"
    by blast
  then have "length w \<in> set (run_lengths Space t)"
    by (cases w) (auto simp: mem_run_lengths)
  moreover from t have "match_here its (drop (length w) t) \<noteq> None" by simp
  ultimately show "match_here (Plus Space # its) t \<noteq> None"
    by (auto simp: match_Plus first_some_None)
qed

lemma match_space_exact:
  assumes "w \<noteq> []" and "\<forall>x \<in> set w. is_space x" and "r = [] \<or> \<not> is_space (hd r)"
    and "match_here its r = Some gs"
  shows "match_here (Plus Space # its) (w @ r) = Some gs"
proof -
  have cls: "in_class Space = is_space" by (rule ext) simp
  have "takeWhile is_space (w @ r) = w"
    using assms(2,3) by (cases r) (simp_all add: takeWhile_append2 takeWhile_eq_all_conv[THEN iffD2])
  with assms(1) have "rev (run_lengths Space (w @ r)) = length w # rev [1 ..< length w]"
    using rev_run_lengths[of Space "w @ r"] by (simp only: cls) simp
  then have "match_here (Plus Space # its) (w @ r) =
      first_some (\<lambda>n. match_here its (drop n (w @ r))) (length w # rev [1 ..< length w])"
    by (simp only: match_Plus)
  also have "\<dots> = Some gs"
    using assms(4) by simp
  finally show ?thesis .
qed

lemma browse_here:
  "match_here browse_re s \<noteq> None \<longleftrightarrow>
     (\<exists>w c r. s = ''browse'' @ w @ c # r \<and> w \<noteq> [] \<and> (\<forall>x \<in> set w. is_space x) \<and> c \<noteq> newline)"
proof -
  have rest: "match_here [GroupPlus AnyChar] r \<noteq> None \<longleftrightarrow> (\<exists>c r'. r = c # r' \<and> c \<noteq> newline)" for r
    by (cases r) (simp_all add: match_rest_of_line)
  have "match_here browse_re s \<noteq> None \<longleftrightarrow>
      (\<exists>t. s = ''browse'' @ t \<and> match_here [Plus Space, GroupPlus AnyChar] t \<noteq> None)"
    by (auto simp: browse_re_def match_Lit prefix_def)
  also have "\<dots> \<longleftrightarrow> (\<exists>w c r. s = ''browse'' @ w @ c # r \<and> w \<noteq> [] \<and> (\<forall>x \<in> set w. is_space x) \<and> c \<noteq> newline)"
    unfolding match_space_then rest by blast
  finally show ?thesis .
qed

lemma first_some_not_None: "n \<in> set ns \<Longrightarrow> f n \<noteq> None \<Longrightarrow> first_some f ns \<noteq> None"
  by (induction ns) (auto split: option.splits)

lemma re_search_matches:
  "re_search pat u \<noteq> None \<longleftrightarrow> (\<exists>p t. u = p @ t \<and> match_here pat t \<noteq> None)"
proof
  assume "re_search pat u \<noteq> None"
  then have "\<exists>i \<in> set [0 ..< Suc (length u)]. match_here pat (drop i u) \<noteq> None"
    unfolding re_search_def first_some_None by blast
  then obtain i where "match_here pat (drop i u) \<noteq> None"
    by blast
  moreover have "u = take i u @ drop i u" by simp
  ultimately show "\<exists>p t. u = p @ t \<and> match_here pat t \<noteq> None" by blast
next
  assume "\<exists>p t. u = p @ t \<and> match_here pat t \<noteq> None"
  then obtain p t where "u = p @ t" "match_here pat t \<noteq> None" by blast
  then have "length p \<in> set [0 ..< Suc (length u)]" "match_here pat (drop (length p) u) \<noteq> None"
    by simp_all
  then show "re_search pat u \<noteq> None"
    unfolding re_search_def by (rule first_some_not_None)
qed

lemma re_search_at_start: "match_here pat u = Some gs \<Longrightarrow> re_search pat u = Some gs"
  by (simp add: re_search_def upt_conv_Cons del: upt_Suc)

lemma re_search_leftmost:
  assumes "\<forall>i<length p. match_here pat (drop i (p @ t)) = None"
    and "match_here pat t = Some gs"
  shows "re_search pat (p @ t) = Some gs"
proof -
  have split: "[0 ..< Suc (length (p @ t))] =
      [0 ..< length p] @ length p # [Suc (length p) ..< Suc (length (p @ t))]"
    using upt_add_eq_append[of 0 "length p" "Suc (length t)"]
    by (simp add: upt_conv_Cons del: upt_Suc)
  have skip: "\<forall>i \<in> set [0 ..< length p]. match_here pat (drop i (p @ t)) = None"
    using assms(1) by simp
  have "re_search pat (p @ t) =
      first_some (\<lambda>i. match_here pat (drop i (p @ t)))
        ([0 ..< length p] @ length p # [Suc (length p) ..< Suc (length (p @ t))])"
    unfolding re_search_def by (simp only: split)
  also have "\<dots> = first_some (\<lambda>i. match_here pat (drop i (p @ t)))
        (length p # [Suc (length p) ..< Suc (length (p @ t))])"
    using skip by (rule first_some_skip)
  also have "\<dots> = Some gs"
    using assms(2) by simp
  finally show ?thesis .
qed

lemma browse_match_exact:
  assumes "w \<noteq> []" and "\<forall>x \<in> set w. is_space x" and "r \<noteq> []" and "\<not> is_space (hd r)"
  shows "match_here browse_re (''browse'' @ w @ r) = Some [takeWhile (\<lambda>c. c \<noteq> newline) r]"
proof -
  from assms(3,4) have "hd r \<noteq> newline" by auto
  with assms(3) have "match_here [GroupPlus AnyChar] r = Some [takeWhile (\<lambda>c. c \<noteq> newline) r]"
    by (simp add: match_rest_of_line)
  with assms have "match_here [Plus Space, GroupPlus AnyChar] (w @ r) =
      Some [takeWhile (\<lambda>c. c \<noteq> newline) r]"
    by (intro match_space_exact) simp_all
  then show ?thesis
    by (simp add: browse_re_def match_Lit)
qed

lemma browse_at_iff:
  "browse_at s \<longleftrightarrow>
     (\<exists>w c r. s = ''browse'' @ w @ c # r \<and> w \<noteq> [] \<and> (\<forall>x \<in> set w. is_space x) \<and> c \<noteq> newline)"
proof
  assume "browse_at s"
  then obtain t k where s: "s = ''browse'' @ t" and k: "1 \<le> k" "k < length t"
    "\<forall>x \<in> set (take k t). is_space x" "t ! k \<noteq> newline"
    by (auto simp: browse_at_def prefix_def list_ex_iff list_all_iff)
  from k(2) have "t = take k t @ t ! k # drop (Suc k) t"
    by (rule id_take_nth_drop)
  with s have "s = ''browse'' @ take k t @ t ! k # drop (Suc k) t" by simp
  moreover from k(1,2) have "take k t \<noteq> []" by auto
  ultimately show "\<exists>w c r. s = ''browse'' @ w @ c # r \<and> w \<noteq> [] \<and> (\<forall>x \<in> set w. is_space x) \<and> c \<noteq> newline"
    using k(3,4) by blast
next
  assume "\<exists>w c r. s = ''browse'' @ w @ c # r \<and> w \<noteq> [] \<and> (\<forall>x \<in> set w. is_space x) \<and> c \<noteq> newline"
  then obtain w c r where s: "s = ''browse'' @ w @ c # r" and w: "w \<noteq> []" "\<forall>x \<in> set w. is_space x"
    and c: "c \<noteq> newline"
    by blast
  have d: "drop 6 s = w @ c # r" using s by simp
  have pre: "prefix ''browse'' s" using s by (simp add: prefix_def)
  have "1 \<le> length w \<and> length w < length (w @ c # r)"
    using w(1) by (cases w) simp_all
  then have "length w \<in> set [1 ..< length (w @ c # r)]"
    by (simp only: set_upt atLeastLessThan_iff)
  moreover have "list_all is_space (take (length w) (w @ c # r)) \<and> (w @ c # r) ! length w \<noteq> newline"
    using w(2) c by (simp add: list_all_iff)
  ultimately have ex: "list_ex (\<lambda>k. list_all is_space (take k (w @ c # r)) \<and> (w @ c # r) ! k \<noteq> newline)
      [1 ..< length (w @ c # r)]"
    unfolding list_ex_iff by (rule bexI[rotated])
  show "browse_at s"
    unfolding browse_at_def d using pre ex by (intro conjI)
qed

lemma list_all_upt: "list_all P [0 ..< n] \<longleftrightarrow> (\<forall>i<n. P i)"
  by (auto simp: list_all_iff)

lemma browse_at_match: "browse_at s \<longleftrightarrow> match_here browse_re s \<noteq> None"
  unfolding browse_at_iff browse_here ..

text \<open>
  Claim C6, as the code has it. On the trimmed, lowercased input, the browse rule applies
  exactly when the input has, at any place, the word \<^verbatim>\<open>browse\<close> followed by white space
  and then a character other than a newline. When the help rule and the collections rule
  do not apply and the pattern matches, the query is a browse of the trimmed group of the
  match. The match is the leftmost one: when no match of the pattern starts before a
  place where the word stands, followed by white space and a text, the group is that text up
  to the end of its line, whatever follows the word further on.
\<close>

theorem browse_rule:
  "(re_search browse_re (lower (strip s)) \<noteq> None \<longleftrightarrow>
      (\<exists>p w c r. lower (strip s) = p @ ''browse'' @ w @ c # r \<and> w \<noteq> [] \<and>
         (\<forall>x \<in> set w. is_space x) \<and> c \<noteq> newline)) \<and>
   (lower (strip s) \<notin> set [''help'', ''?'', ''commands''] \<and>
    \<not> sublist ''collections'' (lower (strip s)) \<and>
    re_search browse_re (lower (strip s)) = Some gs \<longrightarrow>
      resolve_intent colls s = Inr (Browse (strip (gs ! 0)))) \<and>
   (lower (strip s) = p' @ ''browse'' @ w' @ r' \<and>
    (\<forall>i<length p'. \<not> browse_at (drop i (lower (strip s)))) \<and>
    w' \<noteq> [] \<and> (\<forall>x \<in> set w'. is_space x) \<and> r' \<noteq> [] \<and> \<not> is_space (hd r') \<longrightarrow>
      re_search browse_re (lower (strip s)) = Some [takeWhile (\<lambda>c. c \<noteq> newline) r'])"
proof (intro conjI impI)
  show "re_search browse_re (lower (strip s)) \<noteq> None \<longleftrightarrow>
      (\<exists>p w c r. lower (strip s) = p @ ''browse'' @ w @ c # r \<and> w \<noteq> [] \<and>
         (\<forall>x \<in> set w. is_space x) \<and> c \<noteq> newline)"
    unfolding re_search_matches browse_here by blast
next
  assume "lower (strip s) \<notin> set [''help'', ''?'', ''commands''] \<and>
    \<not> sublist ''collections'' (lower (strip s)) \<and>
    re_search browse_re (lower (strip s)) = Some gs"
  moreover have "sublist ''collections'' u" if "sublist ''list collections'' u" for u
  proof -
    have "sublist ''collections'' ''list collections''" by (simp add: sublist_code)
    then show ?thesis using that by (rule sublist_order.order_trans)
  qed
  ultimately show "resolve_intent colls s = Inr (Browse (strip (gs ! 0)))"
    by (auto simp: resolve_intent_def Let_def)
next
  assume h: "lower (strip s) = p' @ ''browse'' @ w' @ r' \<and>
    (\<forall>i<length p'. \<not> browse_at (drop i (lower (strip s)))) \<and>
    w' \<noteq> [] \<and> (\<forall>x \<in> set w'. is_space x) \<and> r' \<noteq> [] \<and> \<not> is_space (hd r')"
  then have here: "match_here browse_re (''browse'' @ w' @ r') =
      Some [takeWhile (\<lambda>c. c \<noteq> newline) r']"
    by (intro browse_match_exact) simp_all
  from h have u: "lower (strip s) = p' @ ''browse'' @ w' @ r'" by blast
  from h have "\<forall>i<length p'. \<not> browse_at (drop i (lower (strip s)))" by blast
  then have "\<forall>i<length p'. match_here browse_re (drop i (p' @ ''browse'' @ w' @ r')) = None"
    unfolding browse_at_match u by blast
  then have "re_search browse_re (p' @ ''browse'' @ w' @ r') =
      Some [takeWhile (\<lambda>c. c \<noteq> newline) r']"
    using here by (rule re_search_leftmost)
  with h show "re_search browse_re (lower (strip s)) = Some [takeWhile (\<lambda>c. c \<noteq> newline) r']"
    by simp
qed

text \<open>A browse query with the word twice, neither time at the start: the rest is the text
  after the first one.\<close>

theorem browse_rule_witness:
  "lower (strip ''  Please Browse  A browse B '') = ''please '' @ ''browse'' @ ''  '' @ ''a browse b'' \<and>
   list_all (\<lambda>i. \<not> browse_at (drop i (lower (strip ''  Please Browse  A browse B ''))))
     [0 ..< length ''please ''] \<and>
   ''  '' \<noteq> [] \<and> list_all is_space ''  '' \<and> ''a browse b'' \<noteq> [] \<and>
   \<not> is_space (hd ''a browse b'') \<and>
   lower (strip ''  Please Browse  A browse B '') \<notin> set [''help'', ''?'', ''commands''] \<and>
   \<not> sublist ''collections'' (lower (strip ''  Please Browse  A browse B '')) \<and>
   re_search browse_re (lower (strip ''  Please Browse  A browse B '')) = Some [''a browse b''] \<and>
   resolve_intent (JList []) ''  Please Browse  A browse B '' = Inr (Browse ''a browse b'')"
proof -
  note facts = browse_rule
    [of "''  Please Browse  A browse B ''" "[''a browse b'']" "JList []" "''please ''" "''  ''"
        "''a browse b''"]
  have u: "lower (strip ''  Please Browse  A browse B '') =
      ''please '' @ ''browse'' @ ''  '' @ ''a browse b''"
    by code_simp
  have none: "list_all (\<lambda>i. \<not> browse_at (drop i (lower (strip ''  Please Browse  A browse B ''))))
     [0 ..< length ''please '']"
    by code_simp
  then have none': "\<forall>i<length ''please ''.
      \<not> browse_at (drop i (lower (strip ''  Please Browse  A browse B '')))"
    by (simp only: list_all_upt)
  have w: "''  '' \<noteq> []" "list_all is_space ''  ''" "''a browse b'' \<noteq> []"
    "\<not> is_space (hd ''a browse b'')"
    by (simp_all add: is_space_def)
  then have w': "\<forall>x \<in> set ''  ''. is_space x"
    by (simp only: list_all_iff)
  have h: "lower (strip ''  Please Browse  A browse B '') \<notin> set [''help'', ''?'', ''commands'']"
    "\<not> sublist ''collections'' (lower (strip ''  Please Browse  A browse B ''))"
    by (simp_all add: u sublist_code)
  have line: "takeWhile (\<lambda>c. c \<noteq> newline) ''a browse b'' = ''a browse b''"
    by (simp add: newline_def)
  from facts u none' w(1,3,4) w'
  have "re_search browse_re (lower (strip ''  Please Browse  A browse B '')) =
      Some [takeWhile (\<lambda>c. c \<noteq> newline) ''a browse b'']"
    by blast
  then have m: "re_search browse_re (lower (strip ''  Please Browse  A browse B '')) =
      Some [''a browse b'']"
    by (simp only: line)
  from facts h m have "resolve_intent (JList []) ''  Please Browse  A browse B '' =
      Inr (Browse (strip ([''a browse b''] ! 0)))"
    by blast
  moreover have "strip ([''a browse b''] ! 0) = ''a browse b''" by code_simp
  ultimately have r: "resolve_intent (JList []) ''  Please Browse  A browse B '' =
      Inr (Browse ''a browse b'')"
    by simp
  from u none w h m r show ?thesis by (intro conjI)
qed

text \<open>Claim C6 as it is written fails: the rule applies to an input that does not start
  with the word.\<close>

theorem browse_not_at_start:
  "\<not> prefix ''browse'' (lower (strip ''please browse maps'')) \<and>
   re_search browse_re (lower (strip ''please browse maps'')) = Some [''maps''] \<and>
   resolve_intent (JList []) ''please browse maps'' = Inr (Browse ''maps'')"
  by code_simp


section \<open>The rule of the collection names\<close>

lemma name_of_step:
  assumes "name_of c = Some m"
  shows "match_collection_name (c # rest) u =
     (if m \<noteq> [] \<and> sublist m u
      then (case c of JObj f \<Rightarrow>
              and_then (py_lstrip_slash (dict_get f ''alias'' (JStr []))) (\<lambda>a. Inr (Some a))
            | _ \<Rightarrow> Inl AttributeError)
      else match_collection_name rest u)"
proof -
  from assms obtain f where c: "c = JObj f"
    by (cases c) (simp_all add: name_of_def)
  from assms c obtain n where n: "dict_get f ''name'' (JStr []) = JStr n" "m = lower n"
    by (cases "dict_get f ''name'' (JStr [])") (simp_all add: name_of_def)
  from c n show ?thesis by simp
qed

lemma match_collection_name_first:
  assumes "i < length cs" and "name_of (cs ! i) = Some nm" and "nm \<noteq> []" and "sublist nm u"
    and "alias_of (cs ! i) = Some a"
    and "\<forall>j<i. \<exists>m. name_of (cs ! j) = Some m \<and> (m = [] \<or> \<not> sublist m u)"
  shows "match_collection_name cs u = Inr (Some a)"
  using assms
proof (induction cs arbitrary: i)
  case Nil
  then show ?case by simp
next
  case (Cons c cs)
  show ?case
  proof (cases i)
    case 0
    with Cons.prems have nm: "name_of c = Some nm" and al: "alias_of c = Some a" by simp_all
    from al obtain f where c: "c = JObj f"
      by (cases c) (simp_all add: alias_of_def)
    from al c obtain s where "dict_get f ''alias'' (JStr []) = JStr s" "a = lstrip_slash s"
      by (cases "dict_get f ''alias'' (JStr [])") (simp_all add: alias_of_def)
    then have "(case c of JObj f \<Rightarrow>
              and_then (py_lstrip_slash (dict_get f ''alias'' (JStr []))) (\<lambda>a. Inr (Some a))
            | _ \<Rightarrow> Inl AttributeError) = Inr (Some a)"
      using c by simp
    with Cons.prems(3,4) show ?thesis
      by (simp only: name_of_step[OF nm] simp_thms if_True)
  next
    case (Suc i')
    from Suc have "0 < i" by simp
    with Cons.prems(6) have "\<exists>m. name_of ((c # cs) ! 0) = Some m \<and> (m = [] \<or> \<not> sublist m u)"
      by blast
    then obtain m where m: "name_of c = Some m" "m = [] \<or> \<not> sublist m u"
      by auto
    have "match_collection_name cs u = Inr (Some a)"
    proof (rule Cons.IH[of i'])
      show "i' < length cs" using Cons.prems(1) Suc by simp
      show "name_of (cs ! i') = Some nm" using Cons.prems(2) Suc by simp
      show "nm \<noteq> []" by (rule Cons.prems(3))
      show "sublist nm u" by (rule Cons.prems(4))
      show "alias_of (cs ! i') = Some a" using Cons.prems(5) Suc by simp
      show "\<forall>j<i'. \<exists>m. name_of (cs ! j) = Some m \<and> (m = [] \<or> \<not> sublist m u)"
      proof (intro allI impI)
        fix j assume "j < i'"
        with Suc have "Suc j < i" by simp
        with Cons.prems(6) have "\<exists>m. name_of ((c # cs) ! Suc j) = Some m \<and> (m = [] \<or> \<not> sublist m u)"
          by blast
        then show "\<exists>m. name_of (cs ! j) = Some m \<and> (m = [] \<or> \<not> sublist m u)"
          by simp
      qed
    qed
    with m(2) show ?thesis
      by (simp only: name_of_step[OF m(1)]) auto
  qed
qed

text \<open>
  Claim C7, as the code has it. When the help rule, the collections rule and the browse
  rule do not apply to the trimmed, lowercased input, and the input contains the
  lowercased display name, not empty, of one of the first ten loaded collections, the
  query is a browse of the identifier of the first such collection in load order, without
  its leading slashes. The collections up to that one are dictionaries whose names are
  strings or absent.
\<close>

theorem collection_name_rule:
  assumes "lower (strip s) \<notin> set [''help'', ''?'', ''commands'']"
    and "\<not> sublist ''collections'' (lower (strip s))"
    and "re_search browse_re (lower (strip s)) = None"
    and "i < length cs" and "i < 10"
    and "name_of (cs ! i) = Some nm" and "nm \<noteq> []" and "sublist nm (lower (strip s))"
    and "alias_of (cs ! i) = Some a"
    and "\<forall>j<i. \<exists>m. name_of (cs ! j) = Some m \<and> (m = [] \<or> \<not> sublist m (lower (strip s)))"
  shows "resolve_intent (JList cs) s = Inr (Browse a)"
proof -
  have "match_collection_name (take 10 cs) (lower (strip s)) = Inr (Some a)"
  proof (rule match_collection_name_first[of i])
    show "i < length (take 10 cs)" using assms(4,5) by simp
    show "name_of (take 10 cs ! i) = Some nm" using assms(5,6) by simp
    show "nm \<noteq> []" by (rule assms(7))
    show "sublist nm (lower (strip s))" by (rule assms(8))
    show "alias_of (take 10 cs ! i) = Some a" using assms(5,9) by simp
    show "\<forall>j<i. \<exists>m. name_of (take 10 cs ! j) = Some m \<and> (m = [] \<or> \<not> sublist m (lower (strip s)))"
      using assms(5,10) by simp
  qed
  moreover have "\<not> sublist ''list collections'' (lower (strip s))"
  proof
    assume l: "sublist ''list collections'' (lower (strip s))"
    have "sublist ''collections'' ''list collections''" by (simp add: sublist_code)
    then have "sublist ''collections'' (lower (strip s))"
      using l by (rule sublist_order.order_trans)
    with assms(2) show False by simp
  qed
  ultimately show ?thesis
    using assms(1,2,3) by (simp add: resolve_intent_def Let_def)
qed

text \<open>Three collections; the input contains the names of the second and of the third
  and not the name of the first.\<close>

theorem collection_name_rule_witness:
  "lower (strip ''Show me OLD MAPS please'') \<notin> set [''help'', ''?'', ''commands''] \<and>
   \<not> sublist ''collections'' (lower (strip ''Show me OLD MAPS please'')) \<and>
   re_search browse_re (lower (strip ''Show me OLD MAPS please'')) = None \<and>
   name_of (JObj [(''alias'', JStr ''/p2''), (''name'', JStr ''Old Maps'')]) = Some ''old maps'' \<and>
   sublist ''old maps'' (lower (strip ''Show me OLD MAPS please'')) \<and>
   alias_of (JObj [(''alias'', JStr ''/p2''), (''name'', JStr ''Old Maps'')]) = Some ''p2'' \<and>
   name_of (JObj [(''alias'', JStr ''/p1''), (''name'', JStr ''Photos'')]) = Some ''photos'' \<and>
   \<not> sublist ''photos'' (lower (strip ''Show me OLD MAPS please'')) \<and>
   resolve_intent
     (JList [JObj [(''alias'', JStr ''/p1''), (''name'', JStr ''Photos'')],
             JObj [(''alias'', JStr ''/p2''), (''name'', JStr ''Old Maps'')],
             JObj [(''alias'', JStr ''/p3''), (''name'', JStr ''Maps'')]])
     ''Show me OLD MAPS please'' = Inr (Browse ''p2'')"
proof -
  let ?s = "''Show me OLD MAPS please''"
  let ?c1 = "JObj [(''alias'', JStr ''/p1''), (''name'', JStr ''Photos'')]"
  let ?c2 = "JObj [(''alias'', JStr ''/p2''), (''name'', JStr ''Old Maps'')]"
  let ?c3 = "JObj [(''alias'', JStr ''/p3''), (''name'', JStr ''Maps'')]"
  have h1: "lower (strip ?s) \<notin> set [''help'', ''?'', ''commands'']" by code_simp
  have h2: "\<not> sublist ''collections'' (lower (strip ?s))" by code_simp
  have h3: "re_search browse_re (lower (strip ?s)) = None" by code_simp
  have n2: "name_of ?c2 = Some ''old maps''" by code_simp
  have s2: "sublist ''old maps'' (lower (strip ?s))" by code_simp
  have a2: "alias_of ?c2 = Some ''p2''" by code_simp
  have n1: "name_of ?c1 = Some ''photos''" by code_simp
  have s1: "\<not> sublist ''photos'' (lower (strip ?s))" by code_simp
  have r: "resolve_intent (JList [?c1, ?c2, ?c3]) ?s = Inr (Browse ''p2'')"
  proof (rule collection_name_rule[of ?s 1 "[?c1, ?c2, ?c3]" "''old maps''" "''p2''"])
    show "\<forall>j<1. \<exists>m. name_of ([?c1, ?c2, ?c3] ! j) = Some m \<and> (m = [] \<or> \<not> sublist m (lower (strip ?s)))"
      using n1 s1 by simp
  qed (use h1 h2 h3 n2 s2 a2 in simp_all)
  from h1 h2 h3 n2 s2 a2 n1 s1 r show ?thesis by (intro conjI)
qed

text \<open>Claim C7 as it is written fails: an input that contains the display name of the
  loaded collection is a listing of the collections when it also contains the word
  \<^verbatim>\<open>collections\<close>, and a browse of the text after \<^verbatim>\<open>browse\<close>, not of the
  collection's identifier, when the browse pattern matches.\<close>

theorem collection_name_preempted:
  "sublist (lower ''Maps'') (lower (strip ''maps and collections'')) \<and>
   resolve_intent (JList [JObj [(''alias'', JStr ''/p1''), (''name'', JStr ''Maps'')]])
     ''maps and collections'' = Inr ListCollections \<and>
   sublist (lower ''Maps'') (lower (strip ''browse old maps'')) \<and>
   resolve_intent (JList [JObj [(''alias'', JStr ''/p1''), (''name'', JStr ''Maps'')]])
     ''browse old maps'' = Inr (Browse ''old maps'')"
  by code_simp

section \<open>The rule of a search in a collection\<close>

lemma has_in_token_intro:
  "is_space c \<Longrightarrow> is_space d \<Longrightarrow> has_in_token (a @ c # ''in'' @ d # b)"
  by (induction a) simp_all

lemma not_space_i [simp]: "\<not> is_space CHR ''i''"
  by (simp add: is_space_def)

lemma not_space_n [simp]: "\<not> is_space CHR ''n''"
  by (simp add: is_space_def)

text \<open>The part of the pattern after the lazy group: \<^verbatim>\<open>\s+in\s+(.+)\<close>\<close>

lemma in_tail_shape:
  assumes "match_here [Plus Space, Lit ''in'', Plus Space, GroupPlus AnyChar] t \<noteq> None"
  shows "\<exists>w d q. t = w @ ''in'' @ d # q \<and> w \<noteq> [] \<and> (\<forall>x \<in> set w. is_space x) \<and> is_space d"
proof -
  from assms obtain w r where w: "t = w @ r" "w \<noteq> []" "\<forall>x \<in> set w. is_space x"
    and r: "match_here [Lit ''in'', Plus Space, GroupPlus AnyChar] r \<noteq> None"
    unfolding match_space_then by blast
  from r obtain r' where r': "r = ''in'' @ r'"
    and m: "match_here [Plus Space, GroupPlus AnyChar] r' \<noteq> None"
    by (auto simp: match_Lit prefix_def split: if_splits)
  from m obtain w' r'' where "r' = w' @ r''" "w' \<noteq> []" "\<forall>x \<in> set w'. is_space x"
    unfolding match_space_then by blast
  then obtain d q where "r' = d # q" "is_space d"
    by (cases w') auto
  with w r' show ?thesis by blast
qed

lemma in_tail_exact:
  assumes "w2 \<noteq> []" and "\<forall>x \<in> set w2. is_space x" and "w3 \<noteq> []" and "\<forall>x \<in> set w3. is_space x"
    and "Y \<noteq> []" and "\<not> is_space (hd Y)"
  shows "match_here [Plus Space, Lit ''in'', Plus Space, GroupPlus AnyChar] (w2 @ ''in'' @ w3 @ Y) =
     Some [takeWhile (\<lambda>c. c \<noteq> newline) Y]"
proof -
  from assms(5,6) have "hd Y \<noteq> newline" by auto
  with assms(5) have "match_here [GroupPlus AnyChar] Y = Some [takeWhile (\<lambda>c. c \<noteq> newline) Y]"
    by (simp add: match_rest_of_line)
  with assms(3,4,6) have "match_here [Plus Space, GroupPlus AnyChar] (w3 @ Y) =
      Some [takeWhile (\<lambda>c. c \<noteq> newline) Y]"
    by (intro match_space_exact) simp_all
  then have "match_here [Lit ''in'', Plus Space, GroupPlus AnyChar] (''in'' @ w3 @ Y) =
      Some [takeWhile (\<lambda>c. c \<noteq> newline) Y]"
    by (simp add: match_Lit)
  with assms(1,2) show ?thesis
    by (intro match_space_exact) simp_all
qed

text \<open>No shorter text than the terms is followed by a match of the rest of the pattern.\<close>

lemma no_earlier_in:
  assumes "0 < n" and "n < length X" and "\<not> is_space (last X)"
    and "w2 \<noteq> []" and "\<forall>x \<in> set w2. is_space x"
    and "\<not> has_in_token (X @ w2)"
  shows "match_here [Plus Space, Lit ''in'', Plus Space, GroupPlus AnyChar]
           (drop n (X @ w2 @ ''in'' @ w3 @ Y)) = None"
proof (rule ccontr)
  let ?D = "drop n X"
  let ?R = "w2 @ ''in'' @ w3 @ Y"
  assume "match_here [Plus Space, Lit ''in'', Plus Space, GroupPlus AnyChar]
           (drop n (X @ w2 @ ''in'' @ w3 @ Y)) \<noteq> None"
  with assms(2) have "match_here [Plus Space, Lit ''in'', Plus Space, GroupPlus AnyChar]
           (?D @ ?R) \<noteq> None"
    by simp
  then obtain w d q where t: "?D @ ?R = w @ ''in'' @ d # q" and w: "w \<noteq> []" "\<forall>x \<in> set w. is_space x"
    and d: "is_space d"
    using in_tail_shape by blast
  from assms(2) have D: "?D \<noteq> []" by simp
  from assms(2,3) have lastD: "\<not> is_space (last ?D)" by simp
  from t have "\<exists>us. (?D = w @ us \<and> us @ ?R = ''in'' @ d # q) \<or> (?D @ us = w \<and> ?R = us @ ''in'' @ d # q)"
    by (rule append_eq_append_conv2[THEN iffD1])
  then obtain us where "(?D = w @ us \<and> us @ ?R = ''in'' @ d # q) \<or> (?D @ us = w \<and> ?R = us @ ''in'' @ d # q)"
    by (rule exE)
  then obtain D' where D': "?D = w @ D'" "D' @ ?R = ''in'' @ d # q" "D' \<noteq> []"
  proof
    assume a: "?D = w @ us \<and> us @ ?R = ''in'' @ d # q"
    have "us \<noteq> []"
    proof
      assume "us = []"
      with a have "?D = w" by simp
      with w lastD show False by (metis last_in_set)
    qed
    with a that show ?thesis by blast
  next
    assume a: "?D @ us = w \<and> ?R = us @ ''in'' @ d # q"
    with D have "last ?D \<in> set w" by (metis last_in_set Un_iff set_append)
    with w lastD show ?thesis by blast
  qed
  from D'(2,3) obtain D1 where D1: "D' = CHR ''i'' # D1" "D1 @ ?R = CHR ''n'' # d # q"
    by (cases D') auto
  have "D1 \<noteq> []"
  proof
    assume "D1 = []"
    with D1(2) have "hd w2 = CHR ''n''" using assms(4) by (cases w2) auto
    with assms(4,5) show False by (cases w2) auto
  qed
  with D1(2) obtain D2 where D2: "D1 = CHR ''n'' # D2" "D2 @ ?R = d # q"
    by (cases D1) auto
  from D2(2) assms(4) obtain q' where q': "D2 @ w2 = d # q'"
    by (cases D2; cases w2) auto
  from w(1) obtain w0 c where wc: "w = w0 @ [c]"
    by (metis rev_exhaust)
  with w(2) have c: "is_space c" by simp
  have "X @ w2 = take n X @ ?D @ w2" by simp
  also have "\<dots> = (take n X @ w0) @ c # ''in'' @ d # q'"
    using D'(1) D1(1) D2(1) q' wc by simp
  finally have "has_in_token (X @ w2)"
    using has_in_token_intro[OF c d, of "take n X @ w0" q'] by simp
  with assms(6) show False by simp
qed

lemma search_in_here:
  assumes "w1 \<noteq> []" and "\<forall>x \<in> set w1. is_space x"
    and "X \<noteq> []" and "\<not> is_space (hd X)" and "\<not> is_space (last X)" and "newline \<notin> set X"
    and "w2 \<noteq> []" and "\<forall>x \<in> set w2. is_space x" and "\<not> has_in_token (X @ w2)"
    and "w3 \<noteq> []" and "\<forall>x \<in> set w3. is_space x"
    and "Y \<noteq> []" and "\<not> is_space (hd Y)"
  shows "re_search search_in_re (''search'' @ w1 @ X @ w2 @ ''in'' @ w3 @ Y) =
     Some [X, takeWhile (\<lambda>c. c \<noteq> newline) Y]"
proof -
  let ?tail = "[Plus Space, Lit ''in'', Plus Space, GroupPlus AnyChar]"
  let ?R = "w2 @ ''in'' @ w3 @ Y"
  let ?t = "X @ ?R"
  let ?f = "\<lambda>n. map_option (\<lambda>gs. take n ?t # gs) (match_here ?tail (drop n ?t))"
  let ?k = "length (takeWhile (in_class AnyChar) ?t)"
  have tail: "match_here ?tail ?R = Some [takeWhile (\<lambda>c. c \<noteq> newline) Y]"
    using assms(7,8,10,11,12,13) by (rule in_tail_exact)
  have "length X \<le> ?k"
    using assms(6) by (auto simp: le_length_takeWhile)
  moreover from assms(3) have "1 \<le> length X" by (cases X) simp_all
  ultimately have split: "run_lengths AnyChar ?t = [1 ..< length X] @ length X # [Suc (length X) ..< Suc ?k]"
  proof -
    assume le: "length X \<le> ?k" and one: "1 \<le> length X"
    have "[1 ..< length X + (Suc ?k - length X)] = [1 ..< length X] @ [length X ..< length X + (Suc ?k - length X)]"
      using one by (rule upt_add_eq_append)
    with le have "[1 ..< Suc ?k] = [1 ..< length X] @ [length X ..< Suc ?k]"
      by simp
    also from le have "[length X ..< Suc ?k] = length X # [Suc (length X) ..< Suc ?k]"
      by (simp add: upt_conv_Cons del: upt_Suc)
    finally show ?thesis by (simp only: run_lengths_def)
  qed
  have early: "\<forall>n \<in> set [1 ..< length X]. ?f n = None"
  proof
    fix n assume "n \<in> set [1 ..< length X]"
    then have "0 < n" "n < length X" by simp_all
    then have "match_here ?tail (drop n ?t) = None"
      using assms(5,7,8,9) by (rule no_earlier_in)
    then show "?f n = None" by simp
  qed
  have "match_here (GroupLazy AnyChar # ?tail) ?t = first_some ?f (run_lengths AnyChar ?t)"
    by (simp only: match_GroupLazy)
  also have "\<dots> = first_some ?f (length X # [Suc (length X) ..< Suc ?k])"
    unfolding split using early by (rule first_some_skip)
  also have "\<dots> = Some [X, takeWhile (\<lambda>c. c \<noteq> newline) Y]"
    using tail by simp
  finally have lazy: "match_here (GroupLazy AnyChar # ?tail) ?t =
      Some [X, takeWhile (\<lambda>c. c \<noteq> newline) Y]" .
  from assms(3,4) have "?t = [] \<or> \<not> is_space (hd ?t)" by simp
  with assms(1,2) lazy have "match_here (Plus Space # GroupLazy AnyChar # ?tail) (w1 @ ?t) =
      Some [X, takeWhile (\<lambda>c. c \<noteq> newline) Y]"
    by (intro match_space_exact)
  then have "match_here search_in_re (''search'' @ w1 @ ?t) =
      Some [X, takeWhile (\<lambda>c. c \<noteq> newline) Y]"
    by (simp add: search_in_re_def match_Lit)
  then show ?thesis by (rule re_search_at_start)
qed


text \<open>
  Claim C1, as the code has it. When the help rule, the collections rule, the browse rule
  and the rule of the collection names do not apply to the trimmed, lowercased input and
  the pattern \<^verbatim>\<open>search\s+(.+?)\s+in\s+(.+)\<close> matches it, the query is a search in a
  collection, of the two trimmed groups, and not a search of all collections: the pattern
  is tried before the prefix \<^verbatim>\<open>search \<close>. For an input that is \<^verbatim>\<open>search\<close>, white
  space, the terms, white space, \<^verbatim>\<open>in\<close>, white space and a collection name, where the
  terms are within one line, neither start nor end with white space and have no token
  \<^verbatim>\<open>in\<close> before the separating one, the groups are the terms and the collection name up
  to the end of its line.
\<close>

theorem search_in_collection_rule:
  "(lower (strip s) \<notin> set [''help'', ''?'', ''commands''] \<and>
    \<not> sublist ''collections'' (lower (strip s)) \<and>
    re_search browse_re (lower (strip s)) = None \<and>
    py_slice 10 colls = Inr cs \<and>
    match_collection_name cs (lower (strip s)) = Inr None \<and>
    re_search search_in_re (lower (strip s)) = Some gs \<longrightarrow>
      resolve_intent colls s = Inr (SearchInCollection (strip (gs ! 0)) (strip (gs ! 1)))) \<and>
   (lower (strip s) = ''search'' @ w1 @ X @ w2 @ ''in'' @ w3 @ Y \<and>
    w1 \<noteq> [] \<and> (\<forall>x \<in> set w1. is_space x) \<and>
    X \<noteq> [] \<and> \<not> is_space (hd X) \<and> \<not> is_space (last X) \<and> newline \<notin> set X \<and>
    w2 \<noteq> [] \<and> (\<forall>x \<in> set w2. is_space x) \<and> \<not> has_in_token (X @ w2) \<and>
    w3 \<noteq> [] \<and> (\<forall>x \<in> set w3. is_space x) \<and>
    Y \<noteq> [] \<and> \<not> is_space (hd Y) \<longrightarrow>
      re_search search_in_re (lower (strip s)) = Some [X, takeWhile (\<lambda>c. c \<noteq> newline) Y])"
proof (intro conjI impI)
  assume h: "lower (strip s) \<notin> set [''help'', ''?'', ''commands''] \<and>
    \<not> sublist ''collections'' (lower (strip s)) \<and>
    re_search browse_re (lower (strip s)) = None \<and>
    py_slice 10 colls = Inr cs \<and>
    match_collection_name cs (lower (strip s)) = Inr None \<and>
    re_search search_in_re (lower (strip s)) = Some gs"
  have "\<not> sublist ''list collections'' (lower (strip s))"
  proof
    assume l: "sublist ''list collections'' (lower (strip s))"
    have "sublist ''collections'' ''list collections''" by (simp add: sublist_code)
    then have "sublist ''collections'' (lower (strip s))"
      using l by (rule sublist_order.order_trans)
    with h show False by simp
  qed
  with h show "resolve_intent colls s = Inr (SearchInCollection (strip (gs ! 0)) (strip (gs ! 1)))"
    by (simp add: resolve_intent_def Let_def)
next
  assume h: "lower (strip s) = ''search'' @ w1 @ X @ w2 @ ''in'' @ w3 @ Y \<and>
    w1 \<noteq> [] \<and> (\<forall>x \<in> set w1. is_space x) \<and>
    X \<noteq> [] \<and> \<not> is_space (hd X) \<and> \<not> is_space (last X) \<and> newline \<notin> set X \<and>
    w2 \<noteq> [] \<and> (\<forall>x \<in> set w2. is_space x) \<and> \<not> has_in_token (X @ w2) \<and>
    w3 \<noteq> [] \<and> (\<forall>x \<in> set w3. is_space x) \<and>
    Y \<noteq> [] \<and> \<not> is_space (hd Y)"
  then have "re_search search_in_re (''search'' @ w1 @ X @ w2 @ ''in'' @ w3 @ Y) =
      Some [X, takeWhile (\<lambda>c. c \<noteq> newline) Y]"
    by (intro search_in_here) blast+
  with h show "re_search search_in_re (lower (strip s)) = Some [X, takeWhile (\<lambda>c. c \<noteq> newline) Y]"
    by simp
qed

text \<open>A search of two words in a collection, with one collection loaded whose name is not
  in the input.\<close>

theorem search_in_collection_rule_witness:
  "lower (strip ''Search Ottoman Empire in Photographs'') =
     ''search'' @ '' '' @ ''ottoman empire'' @ '' '' @ ''in'' @ '' '' @ ''photographs'' \<and>
   list_all is_space '' '' \<and>
   \<not> is_space (hd ''ottoman empire'') \<and> \<not> is_space (last ''ottoman empire'') \<and>
   newline \<notin> set ''ottoman empire'' \<and> \<not> has_in_token (''ottoman empire'' @ '' '') \<and>
   \<not> is_space (hd ''photographs'') \<and>
   lower (strip ''Search Ottoman Empire in Photographs'') \<notin> set [''help'', ''?'', ''commands''] \<and>
   \<not> sublist ''collections'' (lower (strip ''Search Ottoman Empire in Photographs'')) \<and>
   re_search browse_re (lower (strip ''Search Ottoman Empire in Photographs'')) = None \<and>
   py_slice 10 (collections sample_state) =
     Inr [JObj [(''alias'', JStr ''/coll1''), (''name'', JStr ''Maps'')]] \<and>
   match_collection_name [JObj [(''alias'', JStr ''/coll1''), (''name'', JStr ''Maps'')]]
     (lower (strip ''Search Ottoman Empire in Photographs'')) = Inr None \<and>
   re_search search_in_re (lower (strip ''Search Ottoman Empire in Photographs'')) =
     Some [''ottoman empire'', ''photographs''] \<and>
   resolve_intent (collections sample_state) ''Search Ottoman Empire in Photographs'' =
     Inr (SearchInCollection ''ottoman empire'' ''photographs'')"
proof -
  let ?s = "''Search Ottoman Empire in Photographs''"
  let ?cs = "[JObj [(''alias'', JStr ''/coll1''), (''name'', JStr ''Maps'')]]"
  note facts = search_in_collection_rule
    [of ?s "collections sample_state" ?cs "[''ottoman empire'', ''photographs'']"
        "'' ''" "''ottoman empire''" "'' ''" "'' ''" "''photographs''"]
  have u: "lower (strip ?s) =
     ''search'' @ '' '' @ ''ottoman empire'' @ '' '' @ ''in'' @ '' '' @ ''photographs''"
    by code_simp
  have sp: "list_all is_space '' ''" by code_simp
  have x: "\<not> is_space (hd ''ottoman empire'')" "\<not> is_space (last ''ottoman empire'')"
    "newline \<notin> set ''ottoman empire''" "\<not> has_in_token (''ottoman empire'' @ '' '')"
    "\<not> is_space (hd ''photographs'')"
    by code_simp+
  have h: "lower (strip ?s) \<notin> set [''help'', ''?'', ''commands'']"
    "\<not> sublist ''collections'' (lower (strip ?s))"
    "re_search browse_re (lower (strip ?s)) = None"
    "py_slice 10 (collections sample_state) = Inr ?cs"
    "match_collection_name ?cs (lower (strip ?s)) = Inr None"
    by code_simp+
  have line: "takeWhile (\<lambda>c. c \<noteq> newline) ''photographs'' = ''photographs''"
    by code_simp
  from facts u sp x have "re_search search_in_re (lower (strip ?s)) =
      Some [''ottoman empire'', takeWhile (\<lambda>c. c \<noteq> newline) ''photographs'']"
    by (simp add: list_all_iff)
  then have m: "re_search search_in_re (lower (strip ?s)) = Some [''ottoman empire'', ''photographs'']"
    by (simp only: line)
  from facts h m have "resolve_intent (collections sample_state) ?s =
      Inr (SearchInCollection (strip ([''ottoman empire'', ''photographs''] ! 0))
             (strip ([''ottoman empire'', ''photographs''] ! 1)))"
    by blast
  moreover have "strip ([''ottoman empire'', ''photographs''] ! 0) = ''ottoman empire''"
    "strip ([''ottoman empire'', ''photographs''] ! 1) = ''photographs''"
    by code_simp+
  ultimately have r: "resolve_intent (collections sample_state) ?s =
      Inr (SearchInCollection ''ottoman empire'' ''photographs'')"
    by simp
  from u sp x h m r show ?thesis by (intro conjI)
qed

text \<open>Claim C1 as it is written fails: an input of the form
  \<^verbatim>\<open>search <terms> in <collection>\<close> is a listing of the collections when its terms
  contain the word \<^verbatim>\<open>collections\<close>, and a browse when they contain \<^verbatim>\<open>browse\<close>
  followed by a text.\<close>

theorem search_in_collection_preempted:
  "re_search search_in_re (lower (strip ''search collections in maps'')) =
     Some [''collections'', ''maps''] \<and>
   resolve_intent (JList []) ''search collections in maps'' = Inr ListCollections \<and>
   re_search search_in_re (lower (strip ''search how to browse maps in photos'')) =
     Some [''how to browse maps'', ''photos''] \<and>
   resolve_intent (JList []) ''search how to browse maps in photos'' =
     Inr (Browse ''maps in photos'')"
  by code_simp


section \<open>Searching all collections: properties\<close>


lemma combined_entry_returns: "(\<exists>ls. combined_entry i r = Inr ls) \<longleftrightarrow> record_ok r"
  by (cases r) (auto simp: combined_entry_def record_ok_def dict_get_def split: option.splits json.splits)














end
